(* ===== verification/Prelude.thy ===== *)
theory Prelude
  imports Complex_Main "HOL-Library.Word" "HOL-Library.Multiset" "HOL-Library.List_Lexorder"
    "HOL-Library.Product_Lexorder"
begin

text \<open>
  Shared vocabulary of the Omega\_h development: the names of the machine types the
  C++ code uses (\<open>LO\<close>, \<open>I8\<close>, \<open>Real\<close>), the error values that model
  \<open>CHECK\<close>/\<open>fail\<close>/\<open>NORETURN\<close> aborts, the small vector arithmetic of
  \<open>Vector<dim>\<close>, the flat-array gathers of \<open>access.hpp\<close>, and generic lemmas on
  list intervals and 8-bit words that the component theories share.
\<close>

unbundle bit_operations_syntax

named_theorems omega_simps "evaluation rules of the model's table lookups and helpers"
named_theorems rank_oblivious "a step relates states that agree on the mesh and the collective calls"

section \<open>Machine types\<close>

type_synonym LO = nat   \<comment> \<open>local ordinal: an entity index on one rank\<close>
type_synonym I8 = "8 word"
type_synonym Real = real
type_synonym vec = "real list"   \<comment> \<open>\<open>Vector<dim>\<close>, a list of length dim\<close>

text \<open>
  Every \<open>CHECK(...)\<close>, \<open>fail(...)\<close>, \<open>Omega_h_fail(...)\<close> and \<open>NORETURN\<close> of the
  sources aborts the program; the model returns \<open>Inl\<close> of one of these values.
\<close>

datatype error =
    Check_failed string  \<comment> \<open>a failed \<open>CHECK\<close>, named by the condition\<close>
  | Fail string          \<comment> \<open>an explicit \<open>fail\<close>/\<open>Omega_h_fail\<close>/\<open>NORETURN\<close>\<close>

definition check :: "bool \<Rightarrow> string \<Rightarrow> error + unit" where
  "check b what = (if b then Inr () else Inl (Check_failed what))"

lemma check_Inr [simp]: "check b w = Inr u \<longleftrightarrow> b"
  by (simp add: check_def)

lemma check_Inl [simp]: "check b w = Inl e \<longleftrightarrow> \<not> b \<and> e = Check_failed w"
  by (auto simp: check_def)

text \<open>
  Sequencing of fallible steps: the first \<open>Inl\<close> aborts the rest, as a
  \<open>CHECK\<close> ends the program.
\<close>

definition sbind :: "'e + 'a \<Rightarrow> ('a \<Rightarrow> 'e + 'b) \<Rightarrow> 'e + 'b" where
  "sbind x f = (case x of Inl e \<Rightarrow> Inl e | Inr a \<Rightarrow> f a)"

lemma sbind_cong [fundef_cong]:
  "x = y \<Longrightarrow> (\<And>a. y = Inr a \<Longrightarrow> f a = g a) \<Longrightarrow> sbind x f = sbind y g"
  by (cases y) (simp_all add: sbind_def)

lemma sbind_Inl [simp]: "sbind (Inl e) f = Inl e"
  by (simp add: sbind_def)

lemma sbind_Inr [simp]: "sbind (Inr a) f = f a"
  by (simp add: sbind_def)

lemma sbind_eq_Inr: "sbind x f = Inr b \<longleftrightarrow> (\<exists>a. x = Inr a \<and> f a = Inr b)"
  by (cases x) (simp_all add: sbind_def)

lemma sbind_eq_Inl: "sbind x f = Inl e \<longleftrightarrow> x = Inl e \<or> (\<exists>a. x = Inr a \<and> f a = Inl e)"
  by (cases x) (simp_all add: sbind_def)

lemma sbind_assoc: "sbind (sbind x f) g = sbind x (\<lambda>a. sbind (f a) g)"
  by (cases x) (simp_all add: sbind_def)

section \<open>Flat arrays and small vectors\<close>

text \<open>
  Omega\_h stores adjacency and fields as flat arrays with a fixed stride:
  \<open>gather_verts<n>(a2b, a)\<close> reads the \<open>n\<close> entries of row \<open>a\<close>, and
  \<open>get_vector<dim>(coords, v)\<close> the \<open>dim\<close> coordinates of vertex \<open>v\<close>.
\<close>

definition gather :: "nat \<Rightarrow> 'a list \<Rightarrow> nat \<Rightarrow> 'a list" where
  "gather n a i = map (\<lambda>j. a ! (i * n + j)) [0..<n]"

definition vec_add :: "vec \<Rightarrow> vec \<Rightarrow> vec" where
  "vec_add a b = map2 (+) a b"

definition vec_div :: "vec \<Rightarrow> real \<Rightarrow> vec" where
  "vec_div a s = map (\<lambda>x. x / s) a"

lemma length_gather [simp]: "length (gather n a i) = n"
  by (simp add: gather_def)

lemma gather_nth [simp]: "j < n \<Longrightarrow> gather n a i ! j = a ! (i * n + j)"
  by (simp add: gather_def)

lemma length_vec_add [simp]: "length (vec_add a b) = min (length a) (length b)"
  by (simp add: vec_add_def)

lemma length_vec_div [simp]: "length (vec_div a s) = length a"
  by (simp add: vec_div_def)

section \<open>Indexing into rows\<close>

lemma all_nat_less_2: "(\<forall>i<2. P (i::nat)) \<longleftrightarrow> P 0 \<and> P 1"
  by (auto simp: less_2_cases_iff)


lemma nth_image_all: "(!) xs ` {..<length xs} = set xs"
  by (auto simp: in_set_conv_nth)

lemma nth_image_remove:
  assumes "distinct xs" and "v < length xs"
  shows "(!) xs ` ({..<length xs} - {v}) = set xs - {xs ! v}"
proof -
  have "inj_on ((!) xs) {..<length xs}" using assms(1) by (simp add: inj_on_nth)
  then have "(!) xs ` ({..<length xs} - {v}) = (!) xs ` {..<length xs} - (!) xs ` {v}"
    using assms(2) by (intro inj_on_image_set_diff) auto
  then show ?thesis by (simp add: nth_image_all)
qed

lemma distinct_map_nth:
  assumes "distinct xs" and "distinct is" and "set is \<subseteq> {..<length xs}"
  shows "distinct (map ((!) xs) is)"
  using assms by (simp add: distinct_map inj_on_def nth_eq_iff_index_eq subset_iff)

end
