(* ===== verification/Simplices.thy ===== *)
theory Simplices
  imports Prelude
begin

text \<open>
  Cavity topology templates (spec \<section>4.3) and edge-orientation codes. The headers
  that hold them in Omega\_h (\<open>simplices.hpp\<close>, \<open>adj.hpp\<close>,
  \<open>refine_topology.hpp\<close>) are not among the sources under \<open>src/\<close>; the tables
  below are modelled from the spec and the way \<open>refine_qualities.cpp\<close> uses them:
  \<^item> \<open>DownTemplate<dim, ldim>::get(a, b)\<close>: the cell-local vertex at position
    \<open>b\<close> of the cell-local sub-simplex \<open>a\<close> of dimension \<open>ldim\<close>, \<open>-1\<close> out of range;
  \<^item> \<open>OppositeTemplate<dim, VERT>::get(v)\<close>: the side (edge of a triangle, face of
    a tetrahedron) opposite cell-local vertex \<open>v\<close>;
  \<^item> \<open>flip_new_elem<dim>\<close>: the fixed reordering that makes a side joined to a
    new vertex positively oriented;
  \<^item> \<open>make_code\<close>, \<open>code_which_down\<close>, \<open>code_rotation\<close>,
    \<open>code_is_flipped\<close>: the I8 packing of an up-adjacency incidence.
  The lemmas check the tables exhaustively: each side misses exactly its opposite
  vertex, the edges of a cell are the pairs of its vertices, and a side followed by
  its opposite vertex, after the flip, is an even permutation of the cell.
\<close>

section \<open>Tables\<close>

definition tri_edge_verts :: "nat list list" where
  "tri_edge_verts = [[0, 1], [1, 2], [2, 0]]"

definition tet_edge_verts :: "nat list list" where
  "tet_edge_verts = [[0, 1], [1, 2], [2, 0], [0, 3], [1, 3], [2, 3]]"

definition tet_face_verts :: "nat list list" where
  "tet_face_verts = [[0, 2, 1], [0, 1, 3], [1, 2, 3], [2, 0, 3]]"

definition tri_opposite_edge :: "nat list" where
  "tri_opposite_edge = [1, 2, 0]"

definition tet_opposite_face :: "nat list" where
  "tet_opposite_face = [2, 3, 1, 0]"

text \<open>The table of \<open>DownTemplate<hdim, ldim>\<close>, for the instances the kernel uses.\<close>

definition down_table :: "nat \<Rightarrow> nat \<Rightarrow> nat list list option" where
  "down_table hdim ldim =
     (if hdim = 2 \<and> ldim = 1 then Some tri_edge_verts
      else if hdim = 3 \<and> ldim = 1 then Some tet_edge_verts
      else if hdim = 3 \<and> ldim = 2 then Some tet_face_verts
      else None)"

definition down_template :: "nat \<Rightarrow> nat \<Rightarrow> nat \<Rightarrow> nat \<Rightarrow> int" where
  "down_template hdim ldim a b =
     (case down_table hdim ldim of
        None \<Rightarrow> -1
      | Some t \<Rightarrow> if a < length t \<and> b < length (t ! a) then int (t ! a ! b) else -1)"

definition opposite_table :: "nat \<Rightarrow> nat list option" where
  "opposite_table hdim =
     (if hdim = 2 then Some tri_opposite_edge
      else if hdim = 3 then Some tet_opposite_face
      else None)"

definition opposite_template :: "nat \<Rightarrow> nat \<Rightarrow> int" where
  "opposite_template hdim a =
     (case opposite_table hdim of
        None \<Rightarrow> -1
      | Some t \<Rightarrow> if a < length t then int (t ! a) else -1)"

text \<open>\<open>flip_new_elem<dim>\<close>: nothing in 2D, a swap of entries 1 and 2 in 3D.\<close>

definition flip_new_elem :: "nat \<Rightarrow> 'a list \<Rightarrow> 'a list" where
  "flip_new_elem d xs = (if d = 3 then xs[1 := xs ! 2, 2 := xs ! 1] else xs)"

section \<open>Edge-orientation codes\<close>

text \<open>
  An up-adjacency code packs which down-entity of the cell the edge is
  (\<open>which_down\<close>), the rotation of the edge's vertices in the cell and a flip
  bit: \<open>(which_down << 3) | (rotation << 1) | is_flipped\<close>, stored as I8.
\<close>

definition make_code :: "bool \<Rightarrow> nat \<Rightarrow> nat \<Rightarrow> I8" where
  "make_code is_flipped rotation which_down =
     push_bit 3 (word_of_nat which_down) OR push_bit 1 (word_of_nat rotation)
       OR (if is_flipped then 1 else 0)"

definition code_is_flipped :: "I8 \<Rightarrow> bool" where
  "code_is_flipped code = (code AND 1 \<noteq> 0)"

definition code_rotation :: "I8 \<Rightarrow> nat" where
  "code_rotation code = unat (drop_bit 1 code AND 3)"

definition code_which_down :: "I8 \<Rightarrow> int" where
  "code_which_down code = sint (signed_drop_bit 3 code)"

section \<open>Orientation\<close>

text \<open>
  A list of distinct local indices is an even permutation when it has an even
  number of inversions; an even reordering of a simplex's vertices keeps the sign of
  its volume.
\<close>

fun inversions :: "nat list \<Rightarrow> nat" where
  "inversions [] = 0"
| "inversions (x # xs) = length (filter (\<lambda>y. y < x) xs) + inversions xs"

definition even_perm :: "nat list \<Rightarrow> bool" where
  "even_perm xs = even (inversions xs)"

text \<open>The side of a cell opposite cell-local vertex \<open>v\<close>, as cell-local vertices.\<close>

definition side_verts :: "nat \<Rightarrow> nat \<Rightarrow> nat list" where
  "side_verts d v =
     map (\<lambda>csv. nat (down_template d (d - 1) (nat (opposite_template d v)) csv)) [0..<d]"

definition nedges :: "nat \<Rightarrow> nat" where
  "nedges d = (if d = 2 then 3 else if d = 3 then 6 else 0)"

lemmas template_defs [omega_simps] =
  down_template_def down_table_def opposite_template_def opposite_table_def
  tri_edge_verts_def tet_edge_verts_def tet_face_verts_def tri_opposite_edge_def
  tet_opposite_face_def side_verts_def flip_new_elem_def nedges_def

section \<open>Exhaustive checks of the tables\<close>

lemma cell_vertex_cases:
  "((d::nat) = 2 \<or> d = 3) \<Longrightarrow> v \<le> d \<Longrightarrow>
   (d = 2 \<and> (v = 0 \<or> v = 1 \<or> v = 2)) \<or> (d = 3 \<and> (v = 0 \<or> v = 1 \<or> v = 2 \<or> v = 3))"
  by presburger

lemma cell_edge_cases:
  "((d::nat) = 2 \<or> d = 3) \<Longrightarrow> a < nedges d \<Longrightarrow>
   (d = 2 \<and> (a = 0 \<or> a = 1 \<or> a = 2))
   \<or> (d = 3 \<and> (a = 0 \<or> a = 1 \<or> a = 2 \<or> a = 3 \<or> a = 4 \<or> a = 5))"
  by (auto simp: nedges_def)

text \<open>The side opposite a vertex holds every other vertex of the cell, once.\<close>

lemma side_verts_complement:
  assumes "d = 2 \<or> d = 3" and "v \<le> d"
  shows "set (side_verts d v) = {0..d} - {v} \<and> distinct (side_verts d v)"
  using cell_vertex_cases [OF assms]
  by (elim disjE conjE) (simp_all add: omega_simps upt_rec; auto)+

text \<open>
  A side followed by its opposite vertex is an odd reordering of a tetrahedron
  (its faces point outwards) and an even one of a triangle; after
  \<open>flip_new_elem\<close> it is even in both dimensions.
\<close>

lemma side_flip_even:
  assumes "d = 2 \<or> d = 3" and "v \<le> d"
  shows "even_perm (flip_new_elem d (side_verts d v) @ [v])
         \<and> distinct (flip_new_elem d (side_verts d v) @ [v])
         \<and> set (flip_new_elem d (side_verts d v) @ [v]) = {0..d}"
  using cell_vertex_cases [OF assms]
  by (elim disjE conjE) (simp_all add: omega_simps even_perm_def upt_rec; auto)+

text \<open>Each cell-local edge joins two distinct vertices of the cell.\<close>

lemma edge_template_endpoints:
  assumes "d = 2 \<or> d = 3" and "a < nedges d"
  shows "0 \<le> down_template d 1 a 0 \<and> down_template d 1 a 0 \<le> int d
       \<and> 0 \<le> down_template d 1 a 1 \<and> down_template d 1 a 1 \<le> int d
       \<and> down_template d 1 a 0 \<noteq> down_template d 1 a 1"
  using cell_edge_cases [OF assms]
  by (elim disjE conjE) (simp_all add: omega_simps)

lemma edge_template_range:
  assumes "d = 2 \<or> d = 3" and "a < nedges d" and "b < 2"
  shows "0 \<le> down_template d 1 a b \<and> nat (down_template d 1 a b) \<le> d"
proof -
  from assms(3) have "b = 0 \<or> b = 1" by auto
  with edge_template_endpoints [OF assms(1,2)] show ?thesis by auto
qed

section \<open>Codes\<close>

lemma code_fields_make_code:
  assumes "w < 16" and "r < 4"
  shows "code_which_down (make_code f r w) = int w \<and> code_rotation (make_code f r w) = r
         \<and> code_is_flipped (make_code f r w) = f"
proof -
  have w: "w \<in> {0,1,2,3,4,5,6,7,8,9,10,11,12,13,14,15}"
    using assms(1) by (simp only: insert_iff empty_iff) presburger
  have r: "r \<in> {0,1,2,3}"
    using assms(2) by (simp only: insert_iff empty_iff) presburger
  show ?thesis
    using w r
    by (cases f; simp only: insert_iff empty_iff; elim disjE;
        simp add: make_code_def code_which_down_def code_rotation_def code_is_flipped_def)
qed

end
