(* ===== verification/RefineQualities.thy ===== *)
theory RefineQualities
  imports Simplices
begin

text \<open>
  The quality evaluator of \<open>src/src/refine_qualities.cpp\<close> (spec \<section>4.2): for each
  candidate edge, the minimum shape quality of the cells a split of that edge would
  create, computed without changing the mesh. The mesh is seen through the arrays
  the kernel reads (\<open>'m mesh_view\<close>); the quality formulas and the metric
  determinant of \<open>quality.hpp\<close>/\<open>metric.hpp\<close> are parameters
  (\<open>'m quality_ops\<close>), and \<open>maxdet_metric\<close> is modelled as the loop the spec
  describes. Of metrics with equal determinants that loop keeps the first; the
  spec calls the fusion commutative, which a fusion returning one of its inputs
  cannot be on such ties, and no theorem here depends on the choice.
\<close>

section \<open>The mesh seen by the kernel\<close>

text \<open>
  The fields are the arrays \<open>refine_qualities_tmpl\<close> asks the mesh for:
  \<open>ask_verts_of(EDGE)\<close>, \<open>ask_verts_of(dim)\<close>, the three arrays of
  \<open>ask_up(EDGE, dim)\<close> and \<open>coords()\<close>; the optional vertex tag "metric"
  (\<open>has_tag\<close>/\<open>get_array\<close>), the midpoint metrics \<open>get_mident_metrics\<close>
  computes for the candidates, and \<open>sync_subset_array(EDGE, _, candidates, -1.0, 1)\<close>.
\<close>

record 'm mesh_view =
  mesh_dim :: nat
  ev2v :: "LO list"
  cv2v :: "LO list"
  e2ec :: "LO list"
  ec2c :: "LO list"
  ec_codes :: "I8 list"
  coords :: "Real list"
  vert_metrics :: "(LO \<Rightarrow> 'm) option"
  mident_metrics :: "LO list \<Rightarrow> nat \<Rightarrow> 'm"
  sync_edge_subset :: "LO list \<Rightarrow> Real list \<Rightarrow> Real list"

record 'm quality_ops =
  real_element_quality :: "vec list \<Rightarrow> Real"
  metric_element_quality :: "vec list \<Rightarrow> 'm \<Rightarrow> Real"
  determinant :: "'m \<Rightarrow> Real"

text \<open>\<open>Measure::measure(cand, p, csv2v)\<close>: the quality of one new cell.\<close>

type_synonym cell_measure = "nat \<Rightarrow> vec list \<Rightarrow> LO list \<Rightarrow> Real"

section \<open>The two measures\<close>

text \<open>\<open>maxdet_metric\<close>: start from the first metric, replace it by a later one of
  strictly larger determinant.\<close>

fun maxdet_loop :: "('m \<Rightarrow> Real) \<Rightarrow> 'm \<Rightarrow> 'm list \<Rightarrow> 'm" where
  "maxdet_loop det m [] = m"
| "maxdet_loop det m (x # xs) = maxdet_loop det (if det m < det x then x else m) xs"

definition maxdet_metric :: "('m \<Rightarrow> Real) \<Rightarrow> 'm list \<Rightarrow> 'm" where
  "maxdet_metric det ms = maxdet_loop det (hd ms) (tl ms)"

text \<open>\<open>RealRefineQualities::measure\<close>: the isotropic quality of the points.\<close>

definition real_refine_measure :: "'m quality_ops \<Rightarrow> cell_measure" where
  "real_refine_measure q = (\<lambda>cand p csv2v. real_element_quality q p)"

text \<open>
  \<open>MetricRefineQualities::measure\<close>: the metric quality of the points under the
  max-determinant fusion of the metrics at the new cell's old vertices and the
  candidate's midpoint metric.
\<close>

definition metric_refine_measure ::
  "'m quality_ops \<Rightarrow> (LO \<Rightarrow> 'm) \<Rightarrow> (nat \<Rightarrow> 'm) \<Rightarrow> cell_measure" where
  "metric_refine_measure q vert_metric midpt_metric =
     (\<lambda>cand p csv2v.
        metric_element_quality q p
          (maxdet_metric (determinant q) (map vert_metric csv2v @ [midpt_metric cand])))"

section \<open>The kernel\<close>

text \<open>
  The new cell for endpoint \<open>eev\<close> of the edge in one adjacent cell: correct the
  endpoint by the incidence's rotation (\<open>cev = eev ^ rot\<close>), find the cell-local
  vertex \<open>ccv\<close>, the side \<open>ccs\<close> opposite it, and read that side's vertices.
\<close>

definition child_verts :: "nat \<Rightarrow> LO list \<Rightarrow> I8 \<Rightarrow> nat \<Rightarrow> LO list" where
  "child_verts d ccv2v code eev =
     (let cce = code_which_down code;
          rot = code_rotation code;
          cev = eev XOR rot;
          ccv = down_template d 1 (nat cce) cev;
          ccs = opposite_template d (nat ccv)
      in map (\<lambda>csv. ccv2v ! nat (down_template d (d - 1) (nat ccs) csv)) [0..<d])"

text \<open>
  The new cell's points: the side's vertex coordinates, then the midpoint in the
  last slot (\<open>ncp[dim] = midp\<close>), reordered by \<open>flip_new_elem\<close>.
\<close>

definition child_points :: "nat \<Rightarrow> 'm mesh_view \<Rightarrow> vec \<Rightarrow> LO list \<Rightarrow> vec list" where
  "child_points d m midp csv2v = flip_new_elem d (map (gather d (coords m)) csv2v @ [midp])"

text \<open>The body of the inner loop: build the new cell and measure it.\<close>

definition child_quality ::
  "cell_measure \<Rightarrow> nat \<Rightarrow> 'm mesh_view \<Rightarrow> nat \<Rightarrow> vec \<Rightarrow> LO \<Rightarrow> nat \<Rightarrow> Real" where
  "child_quality meas d m cand midp ec eev =
     (let c = ec2c m ! ec;
          code = ec_codes m ! ec;
          ccv2v = gather (d + 1) (cv2v m) c;
          csv2v = child_verts d ccv2v code eev
      in meas cand (child_points d m midp csv2v) (flip_new_elem d csv2v))"

text \<open>The candidate's edge midpoint, the stand-in for the vertex a split would add.\<close>

definition edge_midpoint :: "nat \<Rightarrow> 'm mesh_view \<Rightarrow> LO \<Rightarrow> vec" where
  "edge_midpoint d m e =
     (let eev2v = gather 2 (ev2v m) e;
          ep = map (gather d (coords m)) eev2v
      in vec_div (vec_add (ep ! 0) (ep ! 1)) 2)"

text \<open>The lambda \<open>f\<close> of \<open>refine_qualities_tmpl\<close>, for one candidate.\<close>

definition cand_quality :: "cell_measure \<Rightarrow> nat \<Rightarrow> 'm mesh_view \<Rightarrow> LO list \<Rightarrow> nat \<Rightarrow> Real" where
  "cand_quality meas d m candidates cand =
     (let e = candidates ! cand;
          midp = edge_midpoint d m e
      in fold (\<lambda>ec minqual.
                 fold (\<lambda>eev mq. min mq (child_quality meas d m cand midp ec eev))
                   [0..<2] minqual)
           [e2ec m ! e..<e2ec m ! (e + 1)] 1)"

text \<open>\<open>parallel_for\<close> over the candidates, then the synchronisation of shared edges.\<close>

definition refine_qualities_tmpl :: "cell_measure \<Rightarrow> nat \<Rightarrow> 'm mesh_view \<Rightarrow> LO list \<Rightarrow> Real list" where
  "refine_qualities_tmpl meas d m candidates =
     sync_edge_subset m candidates
       (map (cand_quality meas d m candidates) [0..<length candidates])"

text \<open>\<open>refine_qualities\<close>: choose the measure by the metric tag and the dimension.\<close>

definition refine_qualities :: "'m quality_ops \<Rightarrow> 'm mesh_view \<Rightarrow> LO list \<Rightarrow> error + Real list" where
  "refine_qualities q m candidates =
     (let d = mesh_dim m;
          meas = (case vert_metrics m of
                       Some vm \<Rightarrow> metric_refine_measure q vm (mident_metrics m candidates)
                     | None \<Rightarrow> real_refine_measure q)
      in if d = 3 then Inr (refine_qualities_tmpl meas 3 m candidates)
         else if d = 2 then Inr (refine_qualities_tmpl meas 2 m candidates)
         else Inl (Check_failed ''dim == 2''))"

section \<open>What the kernel assumes of the mesh\<close>

text \<open>
  The up-adjacency of a well-formed mesh: incidence \<open>ec\<close> of edge \<open>e\<close> names a
  cell with distinct vertices and a code whose \<open>which_down\<close> is a cell-local edge
  and whose rotation says in which order that cell-local edge stores the edge's
  endpoints, so that endpoint \<open>eev\<close> of \<open>e\<close> is the cell's vertex at position
  \<open>eev ^ rot\<close> of its local edge.
\<close>

definition incidence_ok :: "nat \<Rightarrow> 'm mesh_view \<Rightarrow> LO \<Rightarrow> LO \<Rightarrow> bool" where
  "incidence_ok d m e ec =
     (let code = ec_codes m ! ec;
          ccv2v = gather (d + 1) (cv2v m) (ec2c m ! ec)
      in 0 \<le> code_which_down code \<and> nat (code_which_down code) < nedges d
         \<and> code_rotation code < 2 \<and> distinct ccv2v
         \<and> (\<forall>eev<2. ccv2v ! nat (down_template d 1 (nat (code_which_down code))
                                   (eev XOR code_rotation code))
                     = ev2v m ! (2 * e + eev)))"

text \<open>
  A concrete mesh for the witnesses: the single right triangle \<open>(0,0), (1,0),
  (0,1)\<close>, its edges \<open>0-1, 1-2, 2-0\<close> stored in the cell's own order, no metric.
\<close>

definition unit_triangle :: "unit mesh_view" where
  "unit_triangle =
     \<lparr>mesh_dim = 2, ev2v = [0, 1, 1, 2, 2, 0], cv2v = [0, 1, 2],
      e2ec = [0, 1, 2, 3], ec2c = [0, 0, 0],
      ec_codes = [make_code False 0 0, make_code False 0 1, make_code False 0 2],
      coords = [0, 0, 1, 0, 0, 1], vert_metrics = None,
      mident_metrics = (\<lambda>_ _. ()), sync_edge_subset = (\<lambda>_ qs. qs)\<rparr>"

text \<open>The unit tetrahedron \<open>(0,0,0), (1,0,0), (0,1,0), (0,0,1)\<close> with its first edge.\<close>

definition tet_mesh :: "unit mesh_view" where
  "tet_mesh =
     \<lparr>mesh_dim = 3, ev2v = [0, 1], cv2v = [0, 1, 2, 3],
      e2ec = [0, 1], ec2c = [0], ec_codes = [make_code False 0 0],
      coords = [0, 0, 0, 1, 0, 0, 0, 1, 0, 0, 0, 1], vert_metrics = None,
      mident_metrics = (\<lambda>_ _. ()), sync_edge_subset = (\<lambda>_ qs. qs)\<rparr>"

text \<open>A quality kernel for the examples: every cell has quality one half.\<close>

definition half_quality :: "unit quality_ops" where
  "half_quality =
     \<lparr>real_element_quality = (\<lambda>_. 1 / 2), metric_element_quality = (\<lambda>_ _. 1 / 2),
      determinant = (\<lambda>_. 1)\<rparr>"

section \<open>Helper lemmas\<close>

lemma xor_lt_2: "(a::nat) < 2 \<Longrightarrow> b < 2 \<Longrightarrow> a XOR b < 2"
proof -
  assume "a < 2" "b < 2"
  then have "a \<in> {0, 1}" "b \<in> {0, 1}" by auto
  then show ?thesis by auto
qed

lemma child_verts_side:
  "child_verts d ccv2v code eev =
     map ((!) ccv2v)
       (side_verts d (nat (down_template d 1 (nat (code_which_down code)) (eev XOR code_rotation code))))"
  by (simp add: child_verts_def side_verts_def Let_def)

lemma incidence_okD:
  assumes "incidence_ok d m e ec" and "eev < 2"
  defines "code \<equiv> ec_codes m ! ec"
  shows "0 \<le> code_which_down code" "nat (code_which_down code) < nedges d"
    "code_rotation code < 2" "distinct (gather (d + 1) (cv2v m) (ec2c m ! ec))"
    "gather (d + 1) (cv2v m) (ec2c m ! ec)
       ! nat (down_template d 1 (nat (code_which_down code)) (eev XOR code_rotation code))
     = ev2v m ! (2 * e + eev)"
  using assms by (auto simp: incidence_ok_def Let_def)

lemma incidence_ok_endpoint_local:
  assumes "d = 2 \<or> d = 3" and "incidence_ok d m e ec" and "eev < 2"
  shows "nat (down_template d 1 (nat (code_which_down (ec_codes m ! ec)))
               (eev XOR code_rotation (ec_codes m ! ec))) \<le> d"
proof -
  have "eev XOR code_rotation (ec_codes m ! ec) < 2"
    using assms(3) incidence_okD(3) [OF assms(2,3)] by (rule xor_lt_2)
  with edge_template_range [OF assms(1) incidence_okD(2) [OF assms(2,3)]] show ?thesis
    by simp
qed

lemma side_points_reorder:
  assumes "d = 2 \<or> d = 3" and "v \<le> d" and "length cp = d + 1"
  shows "flip_new_elem d (map ((!) cp) (side_verts d v) @ [x])
         = map ((!) (cp[v := x])) (flip_new_elem d (side_verts d v) @ [v])"
proof -
  consider a b c where "d = 2" "cp = [a, b, c]" | a b c f where "d = 3" "cp = [a, b, c, f]"
    using assms(1,3) by (auto simp: length_Suc_conv numeral_eq_Suc)
  then show ?thesis
  proof cases
    case 1
    with cell_vertex_cases [OF assms(1,2)] show ?thesis
      by (elim disjE conjE) (simp_all add: omega_simps upt_rec)
  next
    case 2
    with cell_vertex_cases [OF assms(1,2)] show ?thesis
      by (elim disjE conjE) (simp_all add: omega_simps upt_rec)
  qed
qed

lemma map_map_nth:
  "set is \<subseteq> {..<length xs} \<Longrightarrow> map f (map ((!) xs) is) = map ((!) (map f xs)) is"
  by (induction "is") auto

lemma maxdet_loop_det: "det (maxdet_loop det m xs) = fold max (map det xs) (det m)"
  by (induction xs arbitrary: m) (simp_all add: max_def)

lemma maxdet_loop_mem: "maxdet_loop det m xs \<in> insert m (set xs)"
  by (induction xs arbitrary: m) auto

section \<open>Properties of the kernel\<close>

text \<open>
  A candidate edge with no incident cells gets the prediction 1, the value
  the running minimum starts from; the kernel does not produce the \<open>-1\<close>
  "no data" sentinel that the synchronisation uses.
\<close>

theorem cand_quality_no_incident_cells:
  assumes "e2ec m ! (cands ! cand + 1) \<le> e2ec m ! (cands ! cand)"
  shows "cand_quality meas d m cands cand = 1"
  using assms by (simp add: cand_quality_def Let_def)

theorem cand_quality_no_incident_cells_witness:
  "e2ec (unit_triangle\<lparr>e2ec := [0, 0, 1, 2]\<rparr>) ! ([0] ! 0 + 1)
     \<le> e2ec (unit_triangle\<lparr>e2ec := [0, 0, 1, 2]\<rparr>) ! ([0] ! 0)
   \<and> cand_quality (\<lambda>_ _ _. 0) 2 (unit_triangle\<lparr>e2ec := [0, 0, 1, 2]\<rparr>) [0] 0 = 1"
proof -
  have h: "e2ec (unit_triangle\<lparr>e2ec := [0, 0, 1, 2]\<rparr>) ! ([0] ! 0 + 1)
     \<le> e2ec (unit_triangle\<lparr>e2ec := [0, 0, 1, 2]\<rparr>) ! ([0::nat] ! 0)"
    by simp
  show ?thesis using h cand_quality_no_incident_cells [OF h] by simp
qed

text \<open>
  C10: for a well-formed incidence, the new cell built for endpoint \<open>eev\<close> has
  exactly the old cell's vertices other than that endpoint, each once: the
  rotation correction \<open>eev ^ rot\<close> picks the right side of the cell.
\<close>

theorem split_child_drops_endpoint:
  assumes "d = 2 \<or> d = 3" and "incidence_ok d m e ec" and "eev < 2"
  shows "set (child_verts d (gather (d + 1) (cv2v m) (ec2c m ! ec)) (ec_codes m ! ec) eev)
           = set (gather (d + 1) (cv2v m) (ec2c m ! ec)) - {ev2v m ! (2 * e + eev)}
         \<and> distinct (child_verts d (gather (d + 1) (cv2v m) (ec2c m ! ec)) (ec_codes m ! ec) eev)
         \<and> length (child_verts d (gather (d + 1) (cv2v m) (ec2c m ! ec)) (ec_codes m ! ec) eev) = d"
proof -
  let ?ccv2v = "gather (d + 1) (cv2v m) (ec2c m ! ec)"
  let ?code = "ec_codes m ! ec"
  define v where "v = nat (down_template d 1 (nat (code_which_down ?code)) (eev XOR code_rotation ?code))"
  have v: "v \<le> d" using incidence_ok_endpoint_local [OF assms] by (simp add: v_def)
  have dist: "distinct ?ccv2v" by (rule incidence_okD(4) [OF assms(2,3)])
  have ep: "?ccv2v ! v = ev2v m ! (2 * e + eev)"
    using incidence_okD(5) [OF assms(2,3)] by (simp add: v_def)
  have side: "set (side_verts d v) = {0..d} - {v}" "distinct (side_verts d v)"
    using side_verts_complement [OF assms(1) v] by auto
  have dom: "{0..d} = {..<length ?ccv2v}" by auto
  have cv: "child_verts d ?ccv2v ?code eev = map ((!) ?ccv2v) (side_verts d v)"
    by (simp add: child_verts_side v_def)
  have s1: "set (child_verts d ?ccv2v ?code eev) = set ?ccv2v - {ev2v m ! (2 * e + eev)}"
    unfolding cv ep [symmetric] using nth_image_remove [OF dist] v by (simp add: side(1) dom)
  have s2: "distinct (child_verts d ?ccv2v ?code eev)"
    unfolding cv using dist side by (intro distinct_map_nth) (auto simp: dom)
  have s3: "length (child_verts d ?ccv2v ?code eev) = d"
    unfolding cv by (simp add: side_verts_def)
  from s1 s2 s3 show ?thesis by blast
qed

theorem split_child_drops_endpoint_witness:
  "(2::nat) = 2 \<and> incidence_ok 2 unit_triangle 0 0 \<and> (0::nat) < 2
   \<and> set (child_verts 2 [0, 1, 2] (make_code False 0 0) 0) = {0, 1, 2} - {0}
   \<and> distinct (child_verts 2 [0, 1, 2] (make_code False 0 0) 0)"
proof -
  have ok: "incidence_ok 2 unit_triangle 0 0"
    by (simp add: incidence_ok_def unit_triangle_def Let_def omega_simps gather_def upt_rec
                  all_nat_less_2 code_which_down_def code_rotation_def make_code_def)
  have g: "gather (2 + 1) (cv2v unit_triangle) (ec2c unit_triangle ! 0) = [0, 1, 2]"
    by (simp add: unit_triangle_def gather_def upt_rec)
  have c: "ec_codes unit_triangle ! 0 = make_code False 0 0" "ev2v unit_triangle ! (2 * 0 + 0) = 0"
    by (simp_all add: unit_triangle_def)
  show ?thesis
    using split_child_drops_endpoint [of 2 unit_triangle 0 0 0] ok g c by simp
qed

text \<open>
  C11: the points the kernel measures for that new cell are the old cell's points
  with the endpoint replaced by the edge midpoint, taken in an even reordering of
  the cell's local vertex order: the new cell keeps the old cell's orientation, so
  the quality formulas see a positively oriented simplex.
\<close>

theorem split_child_points_oriented:
  assumes "d = 2 \<or> d = 3" and "incidence_ok d m e ec" and "eev < 2"
  shows "\<exists>v \<pi>. v \<le> d \<and> gather (d + 1) (cv2v m) (ec2c m ! ec) ! v = ev2v m ! (2 * e + eev)
           \<and> even_perm \<pi> \<and> distinct \<pi> \<and> set \<pi> = {0..d}
           \<and> child_points d m midp
               (child_verts d (gather (d + 1) (cv2v m) (ec2c m ! ec)) (ec_codes m ! ec) eev)
             = map ((!) ((map (gather d (coords m)) (gather (d + 1) (cv2v m) (ec2c m ! ec)))[v := midp])) \<pi>"
proof -
  let ?ccv2v = "gather (d + 1) (cv2v m) (ec2c m ! ec)"
  let ?cp = "map (gather d (coords m)) ?ccv2v"
  let ?code = "ec_codes m ! ec"
  define v where "v = nat (down_template d 1 (nat (code_which_down ?code)) (eev XOR code_rotation ?code))"
  let ?\<pi> = "flip_new_elem d (side_verts d v) @ [v]"
  have v: "v \<le> d" using incidence_ok_endpoint_local [OF assms] by (simp add: v_def)
  have ep: "?ccv2v ! v = ev2v m ! (2 * e + eev)"
    using incidence_okD(5) [OF assms(2,3)] by (simp add: v_def)
  have cv: "child_verts d ?ccv2v ?code eev = map ((!) ?ccv2v) (side_verts d v)"
    by (simp add: child_verts_side v_def)
  have s: "set (side_verts d v) = {0..d} - {v}"
    using side_verts_complement [OF assms(1) v] by (rule conjunct1)
  have "set (side_verts d v) \<subseteq> {..<length ?ccv2v}"
    unfolding s by auto
  then have mm: "map (gather d (coords m)) (map ((!) ?ccv2v) (side_verts d v))
             = map ((!) ?cp) (side_verts d v)"
    by (rule map_map_nth)
  have "child_points d m midp (child_verts d ?ccv2v ?code eev)
             = flip_new_elem d (map ((!) ?cp) (side_verts d v) @ [midp])"
    unfolding child_points_def cv mm by (rule refl)
  also have "\<dots> = map ((!) (?cp[v := midp])) ?\<pi>"
    by (rule side_points_reorder [OF assms(1) v]) simp
  finally have pts: "child_points d m midp (child_verts d ?ccv2v ?code eev)
                     = map ((!) (?cp[v := midp])) ?\<pi>" .
  have "even_perm ?\<pi> \<and> distinct ?\<pi> \<and> set ?\<pi> = {0..d}"
    by (rule side_flip_even [OF assms(1) v])
  then show ?thesis
    using v ep pts by (intro exI [of _ v] exI [of _ ?\<pi>]) simp
qed

theorem split_child_points_oriented_witness:
  "(3::nat) = 3 \<and> incidence_ok 3 tet_mesh 0 0 \<and> (1::nat) < 2
   \<and> (\<exists>v \<pi>. v \<le> 3 \<and> gather (3 + 1) (cv2v tet_mesh) (ec2c tet_mesh ! 0) ! v = ev2v tet_mesh ! (2 * 0 + 1)
           \<and> even_perm \<pi> \<and> distinct \<pi> \<and> set \<pi> = {0..3}
           \<and> child_points 3 tet_mesh [1 / 2, 0, 0]
               (child_verts 3 (gather (3 + 1) (cv2v tet_mesh) (ec2c tet_mesh ! 0)) (ec_codes tet_mesh ! 0) 1)
             = map ((!) ((map (gather 3 (coords tet_mesh)) (gather (3 + 1) (cv2v tet_mesh) (ec2c tet_mesh ! 0)))[v := [1 / 2, 0, 0]])) \<pi>)"
proof -
  have ok: "incidence_ok 3 tet_mesh 0 0"
    by (simp add: incidence_ok_def tet_mesh_def Let_def omega_simps gather_def upt_rec
                  all_nat_less_2 code_which_down_def code_rotation_def make_code_def)
  have "\<exists>v \<pi>. v \<le> 3 \<and> gather (3 + 1) (cv2v tet_mesh) (ec2c tet_mesh ! 0) ! v = ev2v tet_mesh ! (2 * 0 + 1)
           \<and> even_perm \<pi> \<and> distinct \<pi> \<and> set \<pi> = {0..3}
           \<and> child_points 3 tet_mesh [1 / 2, 0, 0]
               (child_verts 3 (gather (3 + 1) (cv2v tet_mesh) (ec2c tet_mesh ! 0)) (ec_codes tet_mesh ! 0) 1)
             = map ((!) ((map (gather 3 (coords tet_mesh)) (gather (3 + 1) (cv2v tet_mesh) (ec2c tet_mesh ! 0)))[v := [1 / 2, 0, 0]])) \<pi>"
    by (rule split_child_points_oriented [OF _ ok]) simp_all
  with ok show ?thesis by (intro conjI) simp_all
qed

lemma maxdet_metric_max:
  assumes "ms \<noteq> []"
  shows "maxdet_metric det ms \<in> set ms \<and> det (maxdet_metric det ms) = Max (det ` set ms)"
proof -
  obtain m xs where ms: "ms = m # xs" using assms by (cases ms) auto
  have "det (maxdet_loop det m xs) = fold max (map det xs) (det m)" by (rule maxdet_loop_det)
  also have "\<dots> = Max (set (det m # map det xs))" by (simp only: Max.set_eq_fold)
  also have "\<dots> = Max (det ` set ms)" by (simp add: ms)
  finally show ?thesis using maxdet_loop_mem [of det m xs] by (simp add: maxdet_metric_def ms)
qed

text \<open>
  C12: with a metric field, a new cell is measured under one of the metrics of its
  side's vertices or of the candidate's midpoint, one of largest determinant among
  them (the \<open>maxdet_metric\<close> fusion).
\<close>

theorem metric_refine_measure_maxdet:
  "\<exists>M \<in> set (map vm csv2v @ [mm cand]).
     metric_refine_measure q vm mm cand p csv2v = metric_element_quality q p M
     \<and> determinant q M = Max (determinant q ` set (map vm csv2v @ [mm cand]))"
  using maxdet_metric_max [of "map vm csv2v @ [mm cand]" "determinant q"]
  by (auto simp: metric_refine_measure_def)

text \<open>
  C13: \<open>refine_qualities\<close> accepts only triangle and tetrahedron meshes; any other
  dimension fails the \<open>CHECK(dim == 2)\<close>.
\<close>

theorem refine_qualities_dim_check:
  assumes "mesh_dim m \<noteq> 2" and "mesh_dim m \<noteq> 3"
  shows "refine_qualities q m cands = Inl (Check_failed ''dim == 2'')"
  using assms by (simp add: refine_qualities_def Let_def)

theorem refine_qualities_dim_check_witness:
  "mesh_dim (unit_triangle\<lparr>mesh_dim := 1\<rparr>) \<noteq> 2 \<and> mesh_dim (unit_triangle\<lparr>mesh_dim := 1\<rparr>) \<noteq> 3
   \<and> refine_qualities half_quality (unit_triangle\<lparr>mesh_dim := 1\<rparr>) [0] = Inl (Check_failed ''dim == 2'')"
  using refine_qualities_dim_check [of "unit_triangle\<lparr>mesh_dim := 1\<rparr>" half_quality "[0]"] by simp

text \<open>
  Without a "metric" vertex tag the evaluator measures the new cells with the
  isotropic quality, candidate by candidate in the mesh's dimension, and returns
  the synchronised array.
\<close>

theorem refine_qualities_isotropic:
  assumes "vert_metrics m = None" and "mesh_dim m = 2 \<or> mesh_dim m = 3"
  shows "refine_qualities q m cands =
           Inr (sync_edge_subset m cands
                  (map (cand_quality (real_refine_measure q) (mesh_dim m) m cands) [0..<length cands]))"
  using assms by (auto simp: refine_qualities_def refine_qualities_tmpl_def Let_def)

theorem refine_qualities_isotropic_witness:
  "vert_metrics unit_triangle = None \<and> (mesh_dim unit_triangle = 2 \<or> mesh_dim unit_triangle = 3)
   \<and> refine_qualities half_quality unit_triangle [0] =
       Inr [cand_quality (real_refine_measure half_quality) 2 unit_triangle [0] 0]"
proof -
  have h: "vert_metrics unit_triangle = None" "mesh_dim unit_triangle = 2 \<or> mesh_dim unit_triangle = 3"
    by (simp_all add: unit_triangle_def)
  show ?thesis
    using h refine_qualities_isotropic [OF h, of half_quality "[0]"] by (simp add: unit_triangle_def)
qed

text \<open>
  With the isotropic measure a candidate's prediction depends only on its edge,
  not on its position in the candidate list or on the other candidates: the
  per-candidate loop is a pure map that can run in any order or in parallel.
\<close>

theorem cand_quality_edge_local:
  assumes "cands ! i = cands' ! j"
  shows "cand_quality (real_refine_measure q) d m cands i = cand_quality (real_refine_measure q) d m cands' j"
  using assms by (simp add: cand_quality_def child_quality_def real_refine_measure_def)

theorem cand_quality_edge_local_witness:
  "[0, 1::nat] ! 1 = [1] ! 0
   \<and> cand_quality (real_refine_measure half_quality) 2 unit_triangle [0, 1] 1
     = cand_quality (real_refine_measure half_quality) 2 unit_triangle [1] 0"
  using cand_quality_edge_local [of "[0, 1::nat]" 1 "[1]" 0 half_quality 2 unit_triangle] by simp

end
