(* ===== verification/Adapt.thy ===== *)
theory Adapt
  imports Prelude
begin

text \<open>
  The adaptation controller of \<open>src/src/adapt.cpp\<close> (spec \<section>4.1). The mesh is an
  abstract state \<open>'mesh\<close>; what the controller asks of it is the environment
  \<open>'mesh adapt_env\<close>: the global minima and maxima of element quality and edge length
  (each obtained by a collective reduction) and the four mutation operators
  \<open>refine_by_size\<close>, \<open>coarsen_by_size\<close>, \<open>swap_edges\<close>, \<open>coarsen_slivers\<close>, which
  report whether they changed the mesh. The controller's own effects are recorded in
  a trace: every collective call (which all ranks must make in the same order) and
  every line rank 0 prints. Each function of the source is one definition here,
  taking the rank and returning the updated state; the two do-while loops are
  \<^theory_text>\<open>partial_function (option)\<close>, \<open>None\<close> being a loop that never ends.
\<close>

section \<open>Options\<close>

datatype verbosity = SILENT | EACH_REBUILD | EACH_ADAPT | EXTRA_STATS

fun verbosity_level :: "verbosity \<Rightarrow> nat" where
  "verbosity_level SILENT = 0"
| "verbosity_level EACH_REBUILD = 1"
| "verbosity_level EACH_ADAPT = 2"
| "verbosity_level EXTRA_STATS = 3"

instantiation verbosity :: linorder
begin

definition less_eq_verbosity :: "verbosity \<Rightarrow> verbosity \<Rightarrow> bool" where
  "a \<le> b \<longleftrightarrow> verbosity_level a \<le> verbosity_level b"

definition less_verbosity :: "verbosity \<Rightarrow> verbosity \<Rightarrow> bool" where
  "a < b \<longleftrightarrow> verbosity_level a < verbosity_level b"

instance
proof
  fix a b c :: verbosity
  show "a < b \<longleftrightarrow> a \<le> b \<and> \<not> b \<le> a"
    by (auto simp: less_eq_verbosity_def less_verbosity_def)
  show "a \<le> a" by (simp add: less_eq_verbosity_def)
  show "a \<le> b \<Longrightarrow> b \<le> c \<Longrightarrow> a \<le> c" by (simp add: less_eq_verbosity_def)
  show "a \<le> b \<Longrightarrow> b \<le> a \<Longrightarrow> a = b"
    by (cases a; cases b) (simp_all add: less_eq_verbosity_def)
  show "a \<le> b \<or> b \<le> a" by (auto simp: less_eq_verbosity_def)
qed

end

record adapt_opts =
  min_length_desired :: Real
  max_length_desired :: Real
  max_length_allowed :: Real
  min_quality_allowed :: Real
  min_quality_desired :: Real
  nsliver_layers :: int
  verbosity :: verbosity
  length_histogram_min :: Real
  length_histogram_max :: Real

text \<open>\<open>ArithTraits<Real>::max()\<close>, the largest finite double.\<close>

definition real_max :: Real where
  "real_max = (2 - 1 / 2 ^ 52) * 2 ^ 1023"

text \<open>
  \<open>AdaptOpts::AdaptOpts(Mesh*)\<close>. The two quality floors are assigned only for
  \<open>dim() == 3\<close> and \<open>dim() == 2\<close>; for any other dimension the members keep
  whatever they held, which the model takes as the argument \<open>prior\<close>.
\<close>

definition adapt_opts_init :: "nat \<Rightarrow> Real \<times> Real \<Rightarrow> adapt_opts" where
  "adapt_opts_init d prior =
     (let q3 = (if d = 3 then (0.20, 0.30) else prior);
          q2 = (if d = 2 then (0.30, 0.40) else q3)
      in \<lparr>min_length_desired = 1 / sqrt 2, max_length_desired = sqrt 2,
          max_length_allowed = real_max,
          min_quality_allowed = fst q2, min_quality_desired = snd q2,
          nsliver_layers = 4, verbosity = EACH_REBUILD,
          length_histogram_min = 0, length_histogram_max = 3\<rparr>)"

text \<open>The invariants \<open>validate\<close> checks with \<open>CHECK\<close>.\<close>

definition opts_valid :: "adapt_opts \<Rightarrow> bool" where
  "opts_valid opts \<longleftrightarrow>
     0 \<le> min_quality_allowed opts \<and> min_quality_allowed opts \<le> min_quality_desired opts
     \<and> min_quality_desired opts \<le> 1 \<and> 0 \<le> nsliver_layers opts \<and> nsliver_layers opts < 100"

section \<open>The mesh, the trace, the state\<close>

datatype mesh_op = Refine_by_size | Coarsen_by_size | Swap_edges | Coarsen_slivers

record 'mesh adapt_env =
  qual_min :: "'mesh \<Rightarrow> Real"
  qual_max :: "'mesh \<Rightarrow> Real"
  len_min :: "'mesh \<Rightarrow> Real"
  len_max :: "'mesh \<Rightarrow> Real"
  run_op :: "mesh_op \<Rightarrow> adapt_opts \<Rightarrow> 'mesh \<Rightarrow> bool \<times> 'mesh"

text \<open>
  The collective calls the controller makes: \<open>allreduce\<close> with \<open>OMEGA_H_MIN\<close> or
  \<open>OMEGA_H_MAX\<close>, \<open>count_owned_marks\<close>, \<open>nglobal_ents\<close>, the reductions of
  \<open>get_histogram\<close>, \<open>Mesh::min_quality\<close>, and the operators themselves.
\<close>

datatype collective =
    Allreduce_min | Allreduce_max | Count_owned_marks | Nglobal_ents | Get_histogram
  | Min_quality | Operator mesh_op

datatype message =
    Mesh_is_good | Goal_stats | Histogram | Warning_worst_quality | Before_adapting
  | Addressing_lengths | Addressing_qualities | Could_not_satisfy | After_adapting
  | Lengths_took | Qualities_took | Adapting_took

datatype event = Coll collective | Print message

record 'mesh adapt_state =
  st_mesh :: 'mesh
  st_trace :: "event list"

definition emit :: "event \<Rightarrow> 'mesh adapt_state \<Rightarrow> 'mesh adapt_state" where
  "emit ev s = s\<lparr>st_trace := st_trace s @ [ev]\<rparr>"

text \<open>\<open>if (!mesh->comm()->rank()) std::cout << ...\<close>\<close>

definition say :: "nat \<Rightarrow> message \<Rightarrow> 'mesh adapt_state \<Rightarrow> 'mesh adapt_state" where
  "say rank msg s = (if rank = 0 then emit (Print msg) s else s)"

section \<open>Statistics and reports\<close>

text \<open>\<open>goal_stats\<close>: two owned-mark counts and a global count, then rank 0 prints.\<close>

definition goal_stats :: "nat \<Rightarrow> 'mesh adapt_state \<Rightarrow> 'mesh adapt_state" where
  "goal_stats rank s =
     say rank Goal_stats
       (emit (Coll Nglobal_ents) (emit (Coll Count_owned_marks) (emit (Coll Count_owned_marks) s)))"

text \<open>\<open>get_minmax\<close>: a global minimum and a global maximum.\<close>

definition get_minmax :: "'mesh adapt_state \<Rightarrow> 'mesh adapt_state" where
  "get_minmax s = emit (Coll Allreduce_max) (emit (Coll Allreduce_min) s)"

definition adapt_summary :: "nat \<Rightarrow> 'mesh adapt_state \<Rightarrow> 'mesh adapt_state" where
  "adapt_summary rank s = goal_stats rank (goal_stats rank s)"

text \<open>The three goals \<open>adapt_check\<close> tests, with the inclusive comparisons of the source.\<close>

definition goals_met :: "'mesh adapt_env \<Rightarrow> adapt_opts \<Rightarrow> 'mesh \<Rightarrow> bool" where
  "goals_met env opts m \<longleftrightarrow>
     min_quality_desired opts \<le> qual_min env m \<and> min_length_desired opts \<le> len_min env m
     \<and> len_max env m \<le> max_length_desired opts"

definition adapt_check ::
  "'mesh adapt_env \<Rightarrow> nat \<Rightarrow> adapt_opts \<Rightarrow> 'mesh adapt_state \<Rightarrow> bool \<times> 'mesh adapt_state" where
  "adapt_check env rank opts s =
     (let s1 = get_minmax (get_minmax s)
      in if goals_met env opts (st_mesh s)
         then (True, if SILENT < verbosity opts then say rank Mesh_is_good s1 else s1)
         else (False, if SILENT < verbosity opts then adapt_summary rank s1 else s1))"

text \<open>\<open>do_histograms\<close>: a quality and a length histogram, each reduced and printed.\<close>

definition do_histograms :: "nat \<Rightarrow> 'mesh adapt_state \<Rightarrow> 'mesh adapt_state" where
  "do_histograms rank s =
     say rank Histogram (emit (Coll Get_histogram) (say rank Histogram (emit (Coll Get_histogram) s)))"

section \<open>Validation and the pre-check\<close>

definition validate ::
  "'mesh adapt_env \<Rightarrow> nat \<Rightarrow> adapt_opts \<Rightarrow> 'mesh adapt_state \<Rightarrow> error + 'mesh adapt_state" where
  "validate env rank opts s =
     (if \<not> 0 \<le> min_quality_allowed opts then Inl (Check_failed ''0.0 <= opts.min_quality_allowed'')
      else if \<not> min_quality_allowed opts \<le> min_quality_desired opts
        then Inl (Check_failed ''opts.min_quality_allowed <= opts.min_quality_desired'')
      else if \<not> min_quality_desired opts \<le> 1 then Inl (Check_failed ''opts.min_quality_desired <= 1.0'')
      else if \<not> 0 \<le> nsliver_layers opts then Inl (Check_failed ''opts.nsliver_layers >= 0'')
      else if \<not> nsliver_layers opts < 100 then Inl (Check_failed ''opts.nsliver_layers < 100'')
      else let s1 = emit (Coll Min_quality) s
           in Inr (if qual_min env (st_mesh s) < min_quality_allowed opts
                   then say rank Warning_worst_quality s1 else s1))"

definition pre_adapt ::
  "'mesh adapt_env \<Rightarrow> nat \<Rightarrow> adapt_opts \<Rightarrow> 'mesh adapt_state \<Rightarrow> error + bool \<times> 'mesh adapt_state" where
  "pre_adapt env rank opts s =
     (case validate env rank opts s of
        Inl e \<Rightarrow> Inl e
      | Inr s1 \<Rightarrow>
          (let s2 = (if EACH_ADAPT \<le> verbosity opts then say rank Before_adapting s1 else s1)
           in case adapt_check env rank opts s2 of
                (True, s3) \<Rightarrow> Inr (False, s3)
              | (False, s3) \<Rightarrow>
                  (let s4 = (if EXTRA_STATS \<le> verbosity opts then do_histograms rank s3 else s3);
                       s5 = (if EACH_REBUILD \<le> verbosity opts then say rank Addressing_lengths s4 else s4)
                   in Inr (True, s5))))"

definition post_rebuild ::
  "'mesh adapt_env \<Rightarrow> nat \<Rightarrow> adapt_opts \<Rightarrow> 'mesh adapt_state \<Rightarrow> 'mesh adapt_state" where
  "post_rebuild env rank opts s =
     (if EACH_REBUILD \<le> verbosity opts then snd (adapt_check env rank opts s) else s)"

section \<open>The two loops\<close>

text \<open>A call of a mutation operator: a collective call that may replace the mesh.\<close>

definition apply_op ::
  "'mesh adapt_env \<Rightarrow> adapt_opts \<Rightarrow> mesh_op \<Rightarrow> 'mesh adapt_state \<Rightarrow> bool \<times> 'mesh adapt_state" where
  "apply_op env opts op s =
     (case run_op env op opts (st_mesh s) of
        (changed, m') \<Rightarrow> (changed, emit (Coll (Operator op)) (s\<lparr>st_mesh := m'\<rparr>)))"

text \<open>One pass of the body of \<open>satisfy_lengths\<close>'s do-while loop.\<close>

definition lengths_pass ::
  "'mesh adapt_env \<Rightarrow> nat \<Rightarrow> adapt_opts \<Rightarrow> 'mesh adapt_state \<Rightarrow> bool \<times> 'mesh adapt_state" where
  "lengths_pass env rank opts s =
     (case apply_op env opts Refine_by_size s of
        (refined, s1) \<Rightarrow>
          (let s2 = (if refined then post_rebuild env rank opts s1 else s1)
           in case apply_op env opts Coarsen_by_size s2 of
                (coarsened, s3) \<Rightarrow>
                  (refined \<or> coarsened, if coarsened then post_rebuild env rank opts s3 else s3)))"

partial_function (option) satisfy_lengths ::
  "'mesh adapt_env \<Rightarrow> nat \<Rightarrow> adapt_opts \<Rightarrow> 'mesh adapt_state \<Rightarrow> 'mesh adapt_state option" where
  "satisfy_lengths env rank opts s =
     (case lengths_pass env rank opts s of
        (did_anything, s') \<Rightarrow> if did_anything then satisfy_lengths env rank opts s' else Some s')"

text \<open>
  One pass of the body of \<open>satisfy_quality\<close>'s do-while loop: \<open>True\<close> for a
  \<open>continue\<close> (an operator changed the mesh), \<open>False\<close> for the \<open>break\<close>.
\<close>

definition quality_attempt ::
  "'mesh adapt_env \<Rightarrow> nat \<Rightarrow> adapt_opts \<Rightarrow> 'mesh adapt_state \<Rightarrow> bool \<times> 'mesh adapt_state" where
  "quality_attempt env rank opts s =
     (case apply_op env opts Swap_edges s of
        (swapped, s1) \<Rightarrow>
          if swapped then (True, post_rebuild env rank opts s1)
          else (case apply_op env opts Coarsen_slivers s1 of
                  (coarsened, s2) \<Rightarrow>
                    if coarsened then (True, post_rebuild env rank opts s2)
                    else (False, if SILENT < verbosity opts then say rank Could_not_satisfy s2 else s2)))"

text \<open>After a \<open>continue\<close> the loop condition calls \<open>mesh->min_quality()\<close>.\<close>

partial_function (option) quality_loop ::
  "'mesh adapt_env \<Rightarrow> nat \<Rightarrow> adapt_opts \<Rightarrow> 'mesh adapt_state \<Rightarrow> 'mesh adapt_state option" where
  "quality_loop env rank opts s =
     (case quality_attempt env rank opts s of
        (continue, s1) \<Rightarrow>
          if continue
          then (let s2 = emit (Coll Min_quality) s1
                in if qual_min env (st_mesh s2) < min_quality_desired opts
                   then quality_loop env rank opts s2 else Some s2)
          else Some s1)"

definition satisfy_quality ::
  "'mesh adapt_env \<Rightarrow> nat \<Rightarrow> adapt_opts \<Rightarrow> 'mesh adapt_state \<Rightarrow> 'mesh adapt_state option" where
  "satisfy_quality env rank opts s =
     (let s1 = emit (Coll Min_quality) s
      in if min_quality_desired opts \<le> qual_min env (st_mesh s) then Some s1
         else quality_loop env rank opts
                (if EACH_REBUILD \<le> verbosity opts then say rank Addressing_qualities s1 else s1))"

section \<open>The whole call\<close>

definition post_adapt ::
  "'mesh adapt_env \<Rightarrow> nat \<Rightarrow> adapt_opts \<Rightarrow> 'mesh adapt_state \<Rightarrow> 'mesh adapt_state" where
  "post_adapt env rank opts s =
     (let s1 = (if verbosity opts = EACH_ADAPT
                then snd (adapt_check env rank opts (say rank After_adapting s)) else s);
          s2 = (if EXTRA_STATS \<le> verbosity opts then do_histograms rank s1 else s1)
      in if SILENT < verbosity opts
         then say rank Adapting_took (say rank Qualities_took (say rank Lengths_took s2))
         else s2)"

definition adapt ::
  "'mesh adapt_env \<Rightarrow> nat \<Rightarrow> adapt_opts \<Rightarrow> 'mesh \<Rightarrow> error + (bool \<times> 'mesh adapt_state) option" where
  "adapt env rank opts m =
     (case pre_adapt env rank opts \<lparr>st_mesh = m, st_trace = []\<rparr> of
        Inl e \<Rightarrow> Inl e
      | Inr (proceed, s) \<Rightarrow>
          if \<not> proceed then Inr (Some (False, s))
          else Inr (case satisfy_lengths env rank opts s of
                      None \<Rightarrow> None
                    | Some s1 \<Rightarrow>
                        (case satisfy_quality env rank opts s1 of
                           None \<Rightarrow> None
                         | Some s2 \<Rightarrow> Some (True, post_adapt env rank opts s2))))"

text \<open>The collective calls of a trace, the part every rank must perform alike.\<close>

fun collectives :: "event list \<Rightarrow> collective list" where
  "collectives [] = []"
| "collectives (Coll c # evs) = c # collectives evs"
| "collectives (Print _ # evs) = collectives evs"

text \<open>
  Two states look the same to the other ranks when they hold the same mesh and
  record the same collective calls; they may differ in what rank 0 printed.
\<close>

definition same_view :: "'mesh adapt_state \<Rightarrow> 'mesh adapt_state \<Rightarrow> bool" where
  "same_view s s' \<longleftrightarrow> st_mesh s = st_mesh s' \<and> collectives (st_trace s) = collectives (st_trace s')"

definition view :: "'mesh adapt_state \<Rightarrow> 'mesh \<times> collective list" where
  "view s = (st_mesh s, collectives (st_trace s))"

section \<open>Scenario for the examples\<close>

definition demo_opts :: adapt_opts where
  "demo_opts =
     \<lparr>min_length_desired = 0.707, max_length_desired = 1.414, max_length_allowed = real_max,
      min_quality_allowed = 0.3, min_quality_desired = 0.4, nsliver_layers = 4,
      verbosity = EACH_REBUILD, length_histogram_min = 0, length_histogram_max = 3\<rparr>"

definition demo_env :: "nat adapt_env" where
  "demo_env =
     \<lparr>qual_min = (\<lambda>_. 0.4), qual_max = (\<lambda>_. 1), len_min = (\<lambda>_. 0.707),
      len_max = (\<lambda>n. if n = 0 then 1.414 else 2),
      run_op = (\<lambda>op opts n. if op = Refine_by_size \<and> 0 < n then (True, n - 1) else (False, n))\<rparr>"

text \<open>
  A mesh of poor quality: every mesh but \<open>0\<close> has a sliver of quality 0.1, and
  each edge swap removes one step of it.
\<close>

definition swap_env :: "nat adapt_env" where
  "swap_env =
     \<lparr>qual_min = (\<lambda>n. if n = 0 then 0.5 else 0.1), qual_max = (\<lambda>_. 1), len_min = (\<lambda>_. 0.707),
      len_max = (\<lambda>_. 1.414),
      run_op = (\<lambda>op opts n. if op = Swap_edges \<and> 0 < n then (True, n - 1) else (False, n))\<rparr>"

section \<open>Rank independence of the collective calls\<close>

lemma collectives_append [simp]: "collectives (xs @ ys) = collectives xs @ collectives ys"
  by (induction xs rule: collectives.induct) simp_all

lemma same_view_sym: "same_view s s' \<Longrightarrow> same_view s' s"
  by (simp add: same_view_def)

lemma same_view_view: "same_view s s' \<Longrightarrow> view s = view s'"
  by (simp add: same_view_def view_def)

lemma emit_view [rank_oblivious]: "same_view s s' \<Longrightarrow> same_view (emit e s) (emit e s')"
  by (simp add: same_view_def emit_def)

lemma say_view [rank_oblivious]: "same_view s s' \<Longrightarrow> same_view (say r msg s) (say r' msg' s')"
  by (simp add: same_view_def say_def emit_def)

lemma say_mesh [simp]: "st_mesh (say r msg s) = st_mesh s"
  by (simp add: say_def emit_def)

lemma emit_mesh [simp]: "st_mesh (emit e s) = st_mesh s"
  by (simp add: emit_def)

lemma say_view_left [rank_oblivious]: "same_view s s' \<Longrightarrow> same_view (say r msg s) s'"
  by (simp add: same_view_def say_def emit_def)

lemma say_view_right [rank_oblivious]: "same_view s s' \<Longrightarrow> same_view s (say r msg s')"
  by (simp add: same_view_def say_def emit_def)

lemma goal_stats_view [rank_oblivious]:
  "same_view s s' \<Longrightarrow> same_view (goal_stats r s) (goal_stats r' s')"
  unfolding goal_stats_def by (intro rank_oblivious)

lemma get_minmax_view [rank_oblivious]: "same_view s s' \<Longrightarrow> same_view (get_minmax s) (get_minmax s')"
  unfolding get_minmax_def by (intro rank_oblivious)

lemma adapt_summary_view [rank_oblivious]:
  "same_view s s' \<Longrightarrow> same_view (adapt_summary r s) (adapt_summary r' s')"
  unfolding adapt_summary_def by (intro rank_oblivious)

lemma do_histograms_view [rank_oblivious]:
  "same_view s s' \<Longrightarrow> same_view (do_histograms r s) (do_histograms r' s')"
  unfolding do_histograms_def by (intro rank_oblivious)

lemma adapt_check_view:
  assumes "same_view s s'"
  shows "fst (adapt_check env r opts s) = fst (adapt_check env r' opts s')
         \<and> same_view (snd (adapt_check env r opts s)) (snd (adapt_check env r' opts s'))"
proof -
  have m: "st_mesh s = st_mesh s'" using assms by (simp add: same_view_def)
  have v: "same_view (get_minmax (get_minmax s)) (get_minmax (get_minmax s'))"
    using assms by (intro rank_oblivious)
  show ?thesis
    using v by (simp add: adapt_check_def Let_def m rank_oblivious)
qed

lemma adapt_check_snd_view [rank_oblivious]:
  "same_view s s' \<Longrightarrow> same_view (snd (adapt_check env r opts s)) (snd (adapt_check env r' opts s'))"
  by (rule adapt_check_view [THEN conjunct2])

lemma post_rebuild_view [rank_oblivious]:
  "same_view s s' \<Longrightarrow> same_view (post_rebuild env r opts s) (post_rebuild env r' opts s')"
  by (simp add: post_rebuild_def adapt_check_snd_view)

lemma validate_view:
  assumes "same_view s s'"
  shows "rel_sum (=) same_view (validate env r opts s) (validate env r' opts s')"
proof -
  have m: "st_mesh s = st_mesh s'" using assms by (simp add: same_view_def)
  show ?thesis
    using assms by (simp add: validate_def Let_def m rank_oblivious)
qed

lemma apply_op_view:
  assumes "same_view s s'"
  shows "fst (apply_op env opts op s) = fst (apply_op env opts op s')
         \<and> same_view (snd (apply_op env opts op s)) (snd (apply_op env opts op s'))"
  using assms
  by (simp add: apply_op_def same_view_def emit_def split: prod.split)

lemma lengths_pass_view:
  assumes "same_view s s'"
  shows "fst (lengths_pass env r opts s) = fst (lengths_pass env r' opts s')
         \<and> same_view (snd (lengths_pass env r opts s)) (snd (lengths_pass env r' opts s'))"
proof -
  obtain b1 s1 where h1: "apply_op env opts Refine_by_size s = (b1, s1)" by fastforce
  obtain b1' s1' where h1p: "apply_op env opts Refine_by_size s' = (b1', s1')" by fastforce
  from apply_op_view [OF assms, of env opts Refine_by_size] h1 h1p
  have b1: "b1' = b1" and v1: "same_view s1 s1'" by auto
  let ?s2 = "if b1 then post_rebuild env r opts s1 else s1"
  let ?s2' = "if b1 then post_rebuild env r' opts s1' else s1'"
  have v2: "same_view ?s2 ?s2'" using v1 by (simp add: rank_oblivious)
  obtain b3 s3 where h3: "apply_op env opts Coarsen_by_size ?s2 = (b3, s3)" by fastforce
  obtain b3' s3' where h3p: "apply_op env opts Coarsen_by_size ?s2' = (b3', s3')" by fastforce
  from apply_op_view [OF v2, of env opts Coarsen_by_size] h3 h3p
  have b3: "b3' = b3" and v3: "same_view s3 s3'" by auto
  show ?thesis
    using h1 h1p h3 h3p b1 b3 v3 by (simp add: lengths_pass_def Let_def rank_oblivious)
qed


lemma quality_attempt_view:
  assumes "same_view s s'"
  shows "fst (quality_attempt env r opts s) = fst (quality_attempt env r' opts s')
         \<and> same_view (snd (quality_attempt env r opts s)) (snd (quality_attempt env r' opts s'))"
proof -
  obtain b1 s1 where h1: "apply_op env opts Swap_edges s = (b1, s1)" by fastforce
  obtain b1' s1' where h1p: "apply_op env opts Swap_edges s' = (b1', s1')" by fastforce
  from apply_op_view [OF assms, of env opts Swap_edges] h1 h1p
  have b1: "b1' = b1" and v1: "same_view s1 s1'" by auto
  obtain b2 s2 where h2: "apply_op env opts Coarsen_slivers s1 = (b2, s2)" by fastforce
  obtain b2' s2' where h2p: "apply_op env opts Coarsen_slivers s1' = (b2', s2')" by fastforce
  from apply_op_view [OF v1, of env opts Coarsen_slivers] h2 h2p
  have b2: "b2' = b2" and v2: "same_view s2 s2'" by auto
  show ?thesis
    using h1 h1p h2 h2p b1 b2 v1 v2 by (simp add: quality_attempt_def rank_oblivious)
qed

lemma pre_adapt_view:
  assumes "same_view s s'"
  shows "rel_sum (=) (rel_prod (=) same_view) (pre_adapt env r opts s) (pre_adapt env r' opts s')"
proof (cases "validate env r opts s")
  case (Inl e)
  with validate_view [OF assms, of env r opts r'] show ?thesis
    by (cases "validate env r' opts s'") (simp_all add: pre_adapt_def)
next
  case (Inr s1)
  with validate_view [OF assms, of env r opts r'] obtain s1' where
    h1p: "validate env r' opts s' = Inr s1'" and v1: "same_view s1 s1'"
    by (cases "validate env r' opts s'") auto
  let ?s2 = "if EACH_ADAPT \<le> verbosity opts then say r Before_adapting s1 else s1"
  let ?s2' = "if EACH_ADAPT \<le> verbosity opts then say r' Before_adapting s1' else s1'"
  have v2: "same_view ?s2 ?s2'" using v1 by (simp add: rank_oblivious)
  obtain g s3 where h3: "adapt_check env r opts ?s2 = (g, s3)" by fastforce
  obtain g' s3' where h3p: "adapt_check env r' opts ?s2' = (g', s3')" by fastforce
  from adapt_check_view [OF v2, of env r opts r'] h3 h3p
  have g: "g' = g" and v3: "same_view s3 s3'" by auto
  show ?thesis
    using Inr h1p h3 h3p g v3 by (cases g) (simp_all add: pre_adapt_def Let_def rank_oblivious)
qed

lemma post_adapt_view [rank_oblivious]:
  "same_view s s' \<Longrightarrow> same_view (post_adapt env r opts s) (post_adapt env r' opts s')"
  by (simp add: post_adapt_def Let_def rank_oblivious)

lemma satisfy_lengths_view_Some:
  assumes "satisfy_lengths env r opts s = Some t"
  shows "\<forall>s'. same_view s s' \<longrightarrow> (\<exists>t'. satisfy_lengths env r' opts s' = Some t' \<and> same_view t t')"
proof (rule satisfy_lengths.raw_induct
    [where P = "\<lambda>env r opts s t. \<forall>s'. same_view s s'
                 \<longrightarrow> (\<exists>t'. satisfy_lengths env r' opts s' = Some t' \<and> same_view t t')", OF _ assms])
  fix f env r opts s t
  assume IH: "\<And>env r opts s t. f env r opts s = Some t \<Longrightarrow>
               \<forall>s'. same_view s s' \<longrightarrow> (\<exists>t'. satisfy_lengths env r' opts s' = Some t' \<and> same_view t t')"
    and step: "(case lengths_pass env r opts s of
                 (did_anything, s1) \<Rightarrow> if did_anything then f env r opts s1 else Some s1) = Some t"
  show "\<forall>s'. same_view s s' \<longrightarrow> (\<exists>t'. satisfy_lengths env r' opts s' = Some t' \<and> same_view t t')"
  proof (intro allI impI)
    fix s' assume v: "same_view s s'"
    obtain b s1 where h1: "lengths_pass env r opts s = (b, s1)" by fastforce
    obtain b' s1' where h1p: "lengths_pass env r' opts s' = (b', s1')" by fastforce
    from lengths_pass_view [OF v, of env r opts r'] h1 h1p
    have b: "b' = b" and v1: "same_view s1 s1'" by auto
    show "\<exists>t'. satisfy_lengths env r' opts s' = Some t' \<and> same_view t t'"
    proof (cases b)
      case True
      with step h1 have "f env r opts s1 = Some t" by simp
      from IH [OF this] v1 obtain t' where "satisfy_lengths env r' opts s1' = Some t'" "same_view t t'"
        by blast
      with h1p b True show ?thesis by (subst satisfy_lengths.simps) auto
    next
      case False
      with step h1 have "t = s1" by simp
      with h1p b False v1 show ?thesis by (subst satisfy_lengths.simps) auto
    qed
  qed
qed


lemma quality_loop_view_Some:
  assumes "quality_loop env r opts s = Some t"
  shows "\<forall>s'. same_view s s' \<longrightarrow> (\<exists>t'. quality_loop env r' opts s' = Some t' \<and> same_view t t')"
proof (rule quality_loop.raw_induct
    [where P = "\<lambda>env r opts s t. \<forall>s'. same_view s s'
                 \<longrightarrow> (\<exists>t'. quality_loop env r' opts s' = Some t' \<and> same_view t t')", OF _ assms])
  fix f env r opts s t
  assume IH: "\<And>env r opts s t. f env r opts s = Some t \<Longrightarrow>
               \<forall>s'. same_view s s' \<longrightarrow> (\<exists>t'. quality_loop env r' opts s' = Some t' \<and> same_view t t')"
    and step: "(case quality_attempt env r opts s of
                 (continue, s1) \<Rightarrow>
                   if continue
                   then (let s2 = emit (Coll Min_quality) s1
                         in if qual_min env (st_mesh s2) < min_quality_desired opts
                            then f env r opts s2 else Some s2)
                   else Some s1) = Some t"
  show "\<forall>s'. same_view s s' \<longrightarrow> (\<exists>t'. quality_loop env r' opts s' = Some t' \<and> same_view t t')"
  proof (intro allI impI)
    fix s' assume v: "same_view s s'"
    obtain b s1 where h1: "quality_attempt env r opts s = (b, s1)" by fastforce
    obtain b' s1' where h1p: "quality_attempt env r' opts s' = (b', s1')" by fastforce
    from quality_attempt_view [OF v, of env r opts r'] h1 h1p
    have b: "b' = b" and v1: "same_view s1 s1'" by auto
    have v2: "same_view (emit (Coll Min_quality) s1) (emit (Coll Min_quality) s1')"
      using v1 by (rule emit_view)
    have m: "st_mesh s1' = st_mesh s1" using v1 by (simp add: same_view_def)
    show "\<exists>t'. quality_loop env r' opts s' = Some t' \<and> same_view t t'"
    proof (cases "b \<and> qual_min env (st_mesh s1) < min_quality_desired opts")
      case True
      with step h1 have "f env r opts (emit (Coll Min_quality) s1) = Some t" by simp
      from IH [OF this] v2 obtain t' where
        "quality_loop env r' opts (emit (Coll Min_quality) s1') = Some t'" "same_view t t'"
        by blast
      with h1p b m True show ?thesis by (subst quality_loop.simps) auto
    next
      case False
      with step h1 v1 v2 h1p b m show ?thesis
        by (subst quality_loop.simps) (auto simp: Let_def split: if_splits)
    qed
  qed
qed

lemma rel_option_of_Some:
  assumes "\<And>t. f s = Some t \<Longrightarrow> \<exists>t'. g s' = Some t' \<and> R t t'"
    and "\<And>t'. g s' = Some t' \<Longrightarrow> \<exists>t. f s = Some t \<and> R t t'"
  shows "rel_option R (f s) (g s')"
  using assms by (cases "f s"; cases "g s'") force+

lemma satisfy_lengths_view:
  "same_view s s' \<Longrightarrow> rel_option same_view (satisfy_lengths env r opts s) (satisfy_lengths env r' opts s')"
  by (rule rel_option_of_Some; metis satisfy_lengths_view_Some same_view_sym)

lemma quality_loop_view:
  "same_view s s' \<Longrightarrow> rel_option same_view (quality_loop env r opts s) (quality_loop env r' opts s')"
  by (rule rel_option_of_Some; metis quality_loop_view_Some same_view_sym)

lemma satisfy_quality_view:
  assumes "same_view s s'"
  shows "rel_option same_view (satisfy_quality env r opts s) (satisfy_quality env r' opts s')"
proof -
  have m: "st_mesh s' = st_mesh s" using assms by (simp add: same_view_def)
  have v1: "same_view (emit (Coll Min_quality) s) (emit (Coll Min_quality) s')"
    using assms by (rule emit_view)
  have v2: "same_view (if EACH_REBUILD \<le> verbosity opts then say r Addressing_qualities (emit (Coll Min_quality) s) else emit (Coll Min_quality) s)
                      (if EACH_REBUILD \<le> verbosity opts then say r' Addressing_qualities (emit (Coll Min_quality) s') else emit (Coll Min_quality) s')"
    using v1 by (simp add: rank_oblivious)
  show ?thesis
    using v1 quality_loop_view [OF v2, of env r opts r'] by (simp add: satisfy_quality_def Let_def m)
qed

text \<open>
  C1: every rank makes the same collective calls in the same order and ends with the
  same mesh and the same result: what \<open>adapt\<close> returns, the final mesh and the
  sequence of collective calls do not depend on the rank; only rank 0's printing
  does. A rank that skipped a reduction its peers make would deadlock them.
\<close>

theorem adapt_collectives_rank_independent:
  "map_sum id (map_option (\<lambda>(b, s). (b, view s))) (adapt env r opts m)
   = map_sum id (map_option (\<lambda>(b, s). (b, view s))) (adapt env r' opts m)"
proof -
  have v0: "same_view \<lparr>st_mesh = m, st_trace = []\<rparr> \<lparr>st_mesh = m, st_trace = []\<rparr>"
    by (simp add: same_view_def)
  have rel: "rel_option same_view x y \<Longrightarrow>
        (\<And>a b. same_view a b \<Longrightarrow> rel_option same_view (F a) (G b)) \<Longrightarrow>
        rel_option same_view (case x of None \<Rightarrow> None | Some a \<Rightarrow> F a) (case y of None \<Rightarrow> None | Some b \<Rightarrow> G b)"
    for x y and F G :: "'a adapt_state \<Rightarrow> 'a adapt_state option"
    by (cases x; cases y) auto
  show ?thesis
  proof (cases "pre_adapt env r opts \<lparr>st_mesh = m, st_trace = []\<rparr>")
    case (Inl e)
    with pre_adapt_view [OF v0, of env r opts r'] show ?thesis
      by (cases "pre_adapt env r' opts \<lparr>st_mesh = m, st_trace = []\<rparr>") (simp_all add: adapt_def)
  next
    case (Inr bs)
    obtain b s where bs: "bs = (b, s)" by fastforce
    with Inr pre_adapt_view [OF v0, of env r opts r'] obtain s' where
      h: "pre_adapt env r' opts \<lparr>st_mesh = m, st_trace = []\<rparr> = Inr (b, s')" and v: "same_view s s'"
      by (cases "pre_adapt env r' opts \<lparr>st_mesh = m, st_trace = []\<rparr>") auto
    have "rel_option same_view
            (case satisfy_lengths env r opts s of None \<Rightarrow> None
             | Some s1 \<Rightarrow> (case satisfy_quality env r opts s1 of None \<Rightarrow> None
                           | Some s2 \<Rightarrow> Some (post_adapt env r opts s2)))
            (case satisfy_lengths env r' opts s' of None \<Rightarrow> None
             | Some s1 \<Rightarrow> (case satisfy_quality env r' opts s1 of None \<Rightarrow> None
                           | Some s2 \<Rightarrow> Some (post_adapt env r' opts s2)))"
      using satisfy_lengths_view [OF v]
      by (rule rel) (rule rel [OF satisfy_quality_view], simp_all add: post_adapt_view)
    then show ?thesis
      using Inr bs h v
      by (cases "satisfy_lengths env r opts s"; cases "satisfy_lengths env r' opts s'")
         (auto simp: adapt_def same_view_view split: option.splits)
  qed
qed

section \<open>Control flow of the whole call and of its two loops\<close>

lemma mesh_frame [simp]:
  "st_mesh (get_minmax s) = st_mesh s" "st_mesh (goal_stats r s) = st_mesh s"
  "st_mesh (adapt_summary r s) = st_mesh s" "st_mesh (do_histograms r s) = st_mesh s"
  by (simp_all add: get_minmax_def goal_stats_def adapt_summary_def do_histograms_def)

lemma adapt_check_mesh [simp]: "st_mesh (snd (adapt_check env r opts s)) = st_mesh s"
  by (simp add: adapt_check_def Let_def)

lemma adapt_check_fst [simp]: "fst (adapt_check env r opts s) = goals_met env opts (st_mesh s)"
  by (simp add: adapt_check_def Let_def)

lemma post_rebuild_mesh [simp]: "st_mesh (post_rebuild env r opts s) = st_mesh s"
  by (simp add: post_rebuild_def)

lemma apply_op_result:
  "apply_op env opts op s = (b, s') \<Longrightarrow> run_op env op opts (st_mesh s) = (b, st_mesh s')"
  by (auto simp: apply_op_def emit_def split: prod.splits)

lemma validate_Inl: "(\<exists>e. validate env r opts s = Inl e) \<longleftrightarrow> \<not> opts_valid opts"
  by (simp add: validate_def opts_valid_def Let_def)

lemma validate_Inl_indep:
  "validate env r opts s = Inl e \<Longrightarrow> validate env' r' opts s' = Inl e"
  by (simp add: validate_def Let_def split: if_splits)

lemma validate_Inr_mesh: "validate env r opts s = Inr s' \<Longrightarrow> st_mesh s' = st_mesh s"
  by (auto simp: validate_def Let_def split: if_splits)

lemma pre_adapt_Inl:
  "(pre_adapt env r opts s = Inl e) \<longleftrightarrow> validate env r opts s = Inl e"
  by (auto simp: pre_adapt_def Let_def split: sum.splits prod.splits bool.splits)

lemma pre_adapt_Inr:
  assumes "pre_adapt env r opts s = Inr (b, s')"
  shows "b = (\<not> goals_met env opts (st_mesh s)) \<and> st_mesh s' = st_mesh s"
proof -
  obtain s1 where v: "validate env r opts s = Inr s1"
    using assms by (cases "validate env r opts s") (auto simp: pre_adapt_def)
  have m1: "st_mesh s1 = st_mesh s" using v by (rule validate_Inr_mesh)
  let ?s2 = "if EACH_ADAPT \<le> verbosity opts then say r Before_adapting s1 else s1"
  obtain g s3 where c: "adapt_check env r opts ?s2 = (g, s3)" by fastforce
  have g: "g = goals_met env opts (st_mesh s)" and m3: "st_mesh s3 = st_mesh s"
    using adapt_check_fst [of env r opts ?s2] adapt_check_mesh [of env r opts ?s2] c m1 by simp_all
  show ?thesis
    using assms v c g m3 by (cases g) (auto simp: pre_adapt_def Let_def)
qed


text \<open>
  C2: options that break an invariant abort \<open>adapt\<close> with a failed check, the same
  one whatever the mesh, its statistics or the rank: validation happens before any
  mesh query.
\<close>

theorem adapt_invalid_opts_abort:
  assumes "\<not> opts_valid opts"
  shows "\<exists>e. adapt env r opts m = Inl e \<and> adapt env' r' opts m' = Inl e"
proof -
  obtain e where e: "validate env r opts \<lparr>st_mesh = m, st_trace = []\<rparr> = Inl e"
    using assms validate_Inl by blast
  then have "validate env' r' opts \<lparr>st_mesh = m', st_trace = []\<rparr> = Inl e"
    by (rule validate_Inl_indep)
  with e show ?thesis by (auto simp: adapt_def pre_adapt_Inl [symmetric])
qed

theorem adapt_invalid_opts_abort_witness:
  "\<not> opts_valid (demo_opts\<lparr>min_quality_allowed := 0.5, min_quality_desired := 0.3\<rparr>)
   \<and> adapt demo_env 0 (demo_opts\<lparr>min_quality_allowed := 0.5, min_quality_desired := 0.3\<rparr>) 5
     = Inl (Check_failed ''opts.min_quality_allowed <= opts.min_quality_desired'')"
proof -
  let ?o = "demo_opts\<lparr>min_quality_allowed := 0.5, min_quality_desired := 0.3\<rparr>"
  have h: "\<not> opts_valid ?o" by (simp add: opts_valid_def demo_opts_def)
  have "adapt demo_env 0 ?o 5 = Inl (Check_failed ''opts.min_quality_allowed <= opts.min_quality_desired'')"
    by (simp add: adapt_def pre_adapt_def validate_def demo_opts_def)
  with adapt_invalid_opts_abort [OF h, of demo_env 0 5 demo_env 0 5] h show ?thesis by simp
qed

lemma adapt_goals_met_result:
  assumes "opts_valid opts" and "goals_met env opts m"
  shows "\<exists>s. adapt env r opts m = Inr (Some (False, s)) \<and> st_mesh s = m"
proof -
  obtain x where x: "pre_adapt env r opts \<lparr>st_mesh = m, st_trace = []\<rparr> = x" by blast
  have "\<not> (\<exists>e. x = Inl e)"
    using assms(1) x validate_Inl [of env r opts] pre_adapt_Inl by blast
  then obtain b s where "x = Inr (b, s)" by (cases x) auto
  with x have bs: "pre_adapt env r opts \<lparr>st_mesh = m, st_trace = []\<rparr> = Inr (b, s)" by simp
  from pre_adapt_Inr [OF bs] assms(2) have "\<not> b" "st_mesh s = m" by simp_all
  then show ?thesis by (simp add: adapt_def bs)
qed

text \<open>
  C3: with valid options, a mesh that already meets the three goals, boundary values
  included (\<open>\<ge>\<close> and \<open>\<le>\<close>), is left alone: \<open>adapt\<close> returns \<open>false\<close> and the
  mesh it ends with is the mesh it was given.
\<close>

theorem adapt_goals_met_noop:
  assumes "opts_valid opts" and "goals_met env opts m"
  shows "\<exists>s. adapt env r opts m = Inr (Some (False, s)) \<and> st_mesh s = m"
  using assms by (rule adapt_goals_met_result)

theorem adapt_goals_met_noop_witness:
  "opts_valid demo_opts \<and> goals_met demo_env demo_opts 0
   \<and> (\<exists>s. adapt demo_env 0 demo_opts 0 = Inr (Some (False, s)) \<and> st_mesh s = 0)"
proof -
  have h: "opts_valid demo_opts" "goals_met demo_env demo_opts 0"
    by (simp_all add: opts_valid_def goals_met_def demo_opts_def demo_env_def)
  show ?thesis using h adapt_goals_met_noop [OF h, of 0] by blast
qed

text \<open>
  C4: when \<open>adapt\<close> returns, its result is \<open>true\<close> exactly when the initial mesh
  missed a goal: it reports a topology pass whenever the pre-check fails, even if no
  operator then changes anything.
\<close>

theorem adapt_result_iff_goals_missed:
  assumes "adapt env r opts m = Inr (Some (b, s))"
  shows "b \<longleftrightarrow> \<not> goals_met env opts m"
proof -
  obtain b0 s0 where p: "pre_adapt env r opts \<lparr>st_mesh = m, st_trace = []\<rparr> = Inr (b0, s0)"
    using assms by (cases "pre_adapt env r opts \<lparr>st_mesh = m, st_trace = []\<rparr>") (auto simp: adapt_def)
  have "b0 = (\<not> goals_met env opts m)" using pre_adapt_Inr [OF p] by simp
  moreover have "b = b0"
    using assms p by (auto simp: adapt_def split: if_splits option.splits)
  ultimately show ?thesis by simp
qed

theorem adapt_result_iff_goals_missed_witness:
  "(\<exists>s. adapt demo_env 0 demo_opts 0 = Inr (Some (False, s))) \<and> goals_met demo_env demo_opts 0"
proof -
  have h: "opts_valid demo_opts" "goals_met demo_env demo_opts 0"
    by (simp_all add: opts_valid_def goals_met_def demo_opts_def demo_env_def)
  obtain s where s: "adapt demo_env 0 demo_opts 0 = Inr (Some (False, s))"
    using adapt_goals_met_result [OF h, of 0] by blast
  have "False \<longleftrightarrow> \<not> goals_met demo_env demo_opts 0"
    by (rule adapt_result_iff_goals_missed [OF s])
  with s show ?thesis by blast
qed

lemma lengths_pass_parts:
  assumes "lengths_pass env r opts s = (b, s')"
  shows "\<exists>b1 b2 m1. run_op env Refine_by_size opts (st_mesh s) = (b1, m1)
           \<and> run_op env Coarsen_by_size opts m1 = (b2, st_mesh s') \<and> b = (b1 \<or> b2)"
proof -
  obtain b1 s1 where h1: "apply_op env opts Refine_by_size s = (b1, s1)" by fastforce
  let ?s2 = "if b1 then post_rebuild env r opts s1 else s1"
  obtain b2 s3 where h3: "apply_op env opts Coarsen_by_size ?s2 = (b2, s3)" by fastforce
  have s': "s' = (if b2 then post_rebuild env r opts s3 else s3)" and b: "b = (b1 \<or> b2)"
    using assms h1 h3 by (simp_all add: lengths_pass_def)
  have "run_op env Refine_by_size opts (st_mesh s) = (b1, st_mesh s1)"
    using h1 by (rule apply_op_result)
  moreover have "run_op env Coarsen_by_size opts (st_mesh s1) = (b2, st_mesh s')"
    using apply_op_result [OF h3] s' by (cases b1) simp_all
  ultimately show ?thesis using b by blast
qed

lemma quality_attempt_parts:
  assumes "quality_attempt env r opts s = (b, s')"
  shows "\<exists>b1 m1. run_op env Swap_edges opts (st_mesh s) = (b1, m1)
           \<and> (if b1 then b \<and> st_mesh s' = m1
              else run_op env Coarsen_slivers opts m1 = (b, st_mesh s')
                   \<and> (\<not> b \<longrightarrow> SILENT < verbosity opts \<longrightarrow> r = 0
                        \<longrightarrow> Print Could_not_satisfy \<in> set (st_trace s')))"
proof -
  obtain b1 s1 where h1: "apply_op env opts Swap_edges s = (b1, s1)" by fastforce
  obtain b2 s2 where h2: "apply_op env opts Coarsen_slivers s1 = (b2, s2)" by fastforce
  have r1: "run_op env Swap_edges opts (st_mesh s) = (b1, st_mesh s1)"
    using h1 by (rule apply_op_result)
  have r2: "run_op env Coarsen_slivers opts (st_mesh s1) = (b2, st_mesh s2)"
    using h2 by (rule apply_op_result)
  have q: "quality_attempt env r opts s =
    (if b1 then (True, post_rebuild env r opts s1)
     else if b2 then (True, post_rebuild env r opts s2)
     else (False, if SILENT < verbosity opts then say r Could_not_satisfy s2 else s2))"
    by (simp add: quality_attempt_def h1 h2)
  show ?thesis
  proof (cases b1)
    case True
    with assms q have "b" "s' = post_rebuild env r opts s1" by simp_all
    then show ?thesis using r1 True by (intro exI [where x = True] exI [where x = "st_mesh s1"]) simp
  next
    case False
    show ?thesis
    proof (cases b2)
      case True
      with assms q \<open>\<not> b1\<close> have "b" "s' = post_rebuild env r opts s2" by simp_all
      then show ?thesis using r1 r2 False True
        by (intro exI [where x = False] exI [where x = "st_mesh s1"]) simp
    next
      case b2: False
      with assms q \<open>\<not> b1\<close> have b: "\<not> b"
        and s': "s' = (if SILENT < verbosity opts then say r Could_not_satisfy s2 else s2)"
        by simp_all
      have "SILENT < verbosity opts \<longrightarrow> r = 0 \<longrightarrow> Print Could_not_satisfy \<in> set (st_trace s')"
        using s' by (simp add: say_def emit_def)
      moreover have "st_mesh s' = st_mesh s2" using s' by simp
      ultimately show ?thesis using r1 r2 False b2 b
        by (intro exI [where x = False] exI [where x = "st_mesh s1"]) simp
    qed
  qed
qed

text \<open>
  C5: the length loop ends when each of its two operators, whenever it reports a
  change, strictly decreases some natural-number measure of the mesh (for example
  the number of edges outside the length bounds) and never increases it otherwise:
  refinement and coarsening cannot oscillate forever.
\<close>

theorem satisfy_lengths_terminates:
  fixes \<mu> :: "'mesh \<Rightarrow> nat"
  assumes "\<forall>m. case run_op env Refine_by_size opts m of (ch, m') \<Rightarrow> if ch then \<mu> m' < \<mu> m else \<mu> m' \<le> \<mu> m"
    and "\<forall>m. case run_op env Coarsen_by_size opts m of (ch, m') \<Rightarrow> if ch then \<mu> m' < \<mu> m else \<mu> m' \<le> \<mu> m"
  shows "\<exists>t. satisfy_lengths env r opts s = Some t"
proof (induction "\<mu> (st_mesh s) :: nat" arbitrary: s rule: less_induct)
  case less
  obtain b s' where p: "lengths_pass env r opts s = (b, s')" by fastforce
  obtain b1 b2 m1 where r1: "run_op env Refine_by_size opts (st_mesh s) = (b1, m1)"
    and r2: "run_op env Coarsen_by_size opts m1 = (b2, st_mesh s')" and b: "b = (b1 \<or> b2)"
    using lengths_pass_parts [OF p] by blast
  have "case run_op env Refine_by_size opts (st_mesh s) of (ch, m') \<Rightarrow> if ch then \<mu> m' < \<mu> (st_mesh s) else \<mu> m' \<le> \<mu> (st_mesh s)"
    using assms(1) by (rule spec)
  with r1 have d1: "if b1 then \<mu> m1 < \<mu> (st_mesh s) else \<mu> m1 \<le> \<mu> (st_mesh s)" by simp
  have "case run_op env Coarsen_by_size opts m1 of (ch, m') \<Rightarrow> if ch then \<mu> m' < \<mu> m1 else \<mu> m' \<le> \<mu> m1"
    using assms(2) by (rule spec)
  with r2 have d2: "if b2 then \<mu> (st_mesh s') < \<mu> m1 else \<mu> (st_mesh s') \<le> \<mu> m1" by simp
  show ?case
  proof (cases b)
    case True
    with b d1 d2 have "\<mu> (st_mesh s') < \<mu> (st_mesh s)" by (auto split: if_splits)
    then obtain t where "satisfy_lengths env r opts s' = Some t" using less by blast
    with p True show ?thesis by (subst satisfy_lengths.simps) auto
  next
    case False
    with p show ?thesis by (subst satisfy_lengths.simps) auto
  qed
qed

theorem satisfy_lengths_terminates_witness:
  "(\<exists>t. satisfy_lengths demo_env 0 demo_opts \<lparr>st_mesh = 3, st_trace = []\<rparr> = Some t)"
proof -
  have h1: "\<forall>m. case run_op demo_env Refine_by_size demo_opts m of (ch, m') \<Rightarrow> if ch then id m' < id m else id m' \<le> id m"
    by (simp add: demo_env_def)
  have h2: "\<forall>m. case run_op demo_env Coarsen_by_size demo_opts m of (ch, m') \<Rightarrow> if ch then id m' < id m else id m' \<le> id m"
    by (simp add: demo_env_def)
  show ?thesis using satisfy_lengths_terminates [OF h1 h2, of 0 "\<lparr>st_mesh = 3, st_trace = []\<rparr>"] by blast
qed


lemma quality_attempt_decreases:
  fixes \<mu> :: "'mesh \<Rightarrow> nat"
  assumes "\<forall>m. case run_op env Swap_edges opts m of (ch, m') \<Rightarrow> if ch then \<mu> m' < \<mu> m else \<mu> m' \<le> \<mu> m"
    and "\<forall>m. case run_op env Coarsen_slivers opts m of (ch, m') \<Rightarrow> if ch then \<mu> m' < \<mu> m else \<mu> m' \<le> \<mu> m"
    and "quality_attempt env r opts s = (True, s')"
  shows "\<mu> (st_mesh s') < \<mu> (st_mesh s)"
proof -
  obtain b1 m1 where r1: "run_op env Swap_edges opts (st_mesh s) = (b1, m1)"
    and br: "if b1 then st_mesh s' = m1
             else run_op env Coarsen_slivers opts m1 = (True, st_mesh s')"
    using quality_attempt_parts [OF assms(3)] by auto
  have "case run_op env Swap_edges opts (st_mesh s) of (ch, m') \<Rightarrow> if ch then \<mu> m' < \<mu> (st_mesh s) else \<mu> m' \<le> \<mu> (st_mesh s)"
    using assms(1) by (rule spec)
  with r1 have d1: "if b1 then \<mu> m1 < \<mu> (st_mesh s) else \<mu> m1 \<le> \<mu> (st_mesh s)" by simp
  show ?thesis
  proof (cases b1)
    case True
    with br d1 show ?thesis by simp
  next
    case False
    have "case run_op env Coarsen_slivers opts m1 of (ch, m') \<Rightarrow> if ch then \<mu> m' < \<mu> m1 else \<mu> m' \<le> \<mu> m1"
      using assms(2) by (rule spec)
    with br False have "\<mu> (st_mesh s') < \<mu> m1" by simp
    with d1 False show ?thesis by simp
  qed
qed

lemma quality_loop_terminates:
  fixes \<mu> :: "'mesh \<Rightarrow> nat"
  assumes "\<forall>m. case run_op env Swap_edges opts m of (ch, m') \<Rightarrow> if ch then \<mu> m' < \<mu> m else \<mu> m' \<le> \<mu> m"
    and "\<forall>m. case run_op env Coarsen_slivers opts m of (ch, m') \<Rightarrow> if ch then \<mu> m' < \<mu> m else \<mu> m' \<le> \<mu> m"
  shows "\<exists>t. quality_loop env r opts s = Some t"
proof (induction "\<mu> (st_mesh s)" arbitrary: s rule: less_induct)
  case less
  obtain b s1 where q: "quality_attempt env r opts s = (b, s1)" by fastforce
  show ?case
  proof (cases "b \<and> qual_min env (st_mesh s1) < min_quality_desired opts")
    case True
    with q have "\<mu> (st_mesh s1) < \<mu> (st_mesh s)"
      using quality_attempt_decreases [OF assms] by simp
    then obtain t where "quality_loop env r opts (emit (Coll Min_quality) s1) = Some t"
      using less [of "emit (Coll Min_quality) s1"] by auto
    with q True show ?thesis by (subst quality_loop.simps) auto
  next
    case False
    with q show ?thesis by (subst quality_loop.simps) (auto simp: Let_def)
  qed
qed

lemma quality_loop_outcome:
  assumes "quality_loop env r opts s = Some t"
  shows "(\<forall>op m. \<not> fst (run_op env op opts m) \<longrightarrow> snd (run_op env op opts m) = m) \<longrightarrow>
         min_quality_desired opts \<le> qual_min env (st_mesh t)
         \<or> (\<not> fst (run_op env Swap_edges opts (st_mesh t))
            \<and> \<not> fst (run_op env Coarsen_slivers opts (st_mesh t))
            \<and> (SILENT < verbosity opts \<longrightarrow> r = 0 \<longrightarrow> Print Could_not_satisfy \<in> set (st_trace t)))"
proof (rule quality_loop.raw_induct
    [where P = "\<lambda>env r opts s t. (\<forall>op m. \<not> fst (run_op env op opts m) \<longrightarrow> snd (run_op env op opts m) = m) \<longrightarrow>
         min_quality_desired opts \<le> qual_min env (st_mesh t)
         \<or> (\<not> fst (run_op env Swap_edges opts (st_mesh t))
            \<and> \<not> fst (run_op env Coarsen_slivers opts (st_mesh t))
            \<and> (SILENT < verbosity opts \<longrightarrow> r = 0 \<longrightarrow> Print Could_not_satisfy \<in> set (st_trace t)))", OF _ assms])
  fix f env r opts s t
  assume IH: "\<And>env r opts s t. f env r opts s = Some t \<Longrightarrow>
         (\<forall>op m. \<not> fst (run_op env op opts m) \<longrightarrow> snd (run_op env op opts m) = m) \<longrightarrow>
         min_quality_desired opts \<le> qual_min env (st_mesh t)
         \<or> (\<not> fst (run_op env Swap_edges opts (st_mesh t))
            \<and> \<not> fst (run_op env Coarsen_slivers opts (st_mesh t))
            \<and> (SILENT < verbosity opts \<longrightarrow> r = 0 \<longrightarrow> Print Could_not_satisfy \<in> set (st_trace t)))"
    and step: "(case quality_attempt env r opts s of
                 (continue, s1) \<Rightarrow>
                   if continue
                   then (let s2 = emit (Coll Min_quality) s1
                         in if qual_min env (st_mesh s2) < min_quality_desired opts
                            then f env r opts s2 else Some s2)
                   else Some s1) = Some t"
  show "(\<forall>op m. \<not> fst (run_op env op opts m) \<longrightarrow> snd (run_op env op opts m) = m) \<longrightarrow>
         min_quality_desired opts \<le> qual_min env (st_mesh t)
         \<or> (\<not> fst (run_op env Swap_edges opts (st_mesh t))
            \<and> \<not> fst (run_op env Coarsen_slivers opts (st_mesh t))
            \<and> (SILENT < verbosity opts \<longrightarrow> r = 0 \<longrightarrow> Print Could_not_satisfy \<in> set (st_trace t)))"
  proof
    assume noop: "\<forall>op m. \<not> fst (run_op env op opts m) \<longrightarrow> snd (run_op env op opts m) = m"
    obtain b s1 where q: "quality_attempt env r opts s = (b, s1)" by fastforce
    show "min_quality_desired opts \<le> qual_min env (st_mesh t)
         \<or> (\<not> fst (run_op env Swap_edges opts (st_mesh t))
            \<and> \<not> fst (run_op env Coarsen_slivers opts (st_mesh t))
            \<and> (SILENT < verbosity opts \<longrightarrow> r = 0 \<longrightarrow> Print Could_not_satisfy \<in> set (st_trace t)))"
    proof (cases b)
      case True
      show ?thesis
      proof (cases "qual_min env (st_mesh s1) < min_quality_desired opts")
        case True
        with step q \<open>b\<close> have "f env r opts (emit (Coll Min_quality) s1) = Some t" by simp
        from IH [OF this] noop show ?thesis by blast
      next
        case False
        with step q \<open>b\<close> have "t = emit (Coll Min_quality) s1" by simp
        with False show ?thesis by simp
      qed
    next
      case False
      with step q have t: "t = s1" by simp
      obtain b1 m1 where r1: "run_op env Swap_edges opts (st_mesh s) = (b1, m1)"
        and br: "if b1 then b \<and> st_mesh s1 = m1
                 else run_op env Coarsen_slivers opts m1 = (b, st_mesh s1)
                   \<and> (\<not> b \<longrightarrow> SILENT < verbosity opts \<longrightarrow> r = 0
                        \<longrightarrow> Print Could_not_satisfy \<in> set (st_trace s1))"
        using quality_attempt_parts [OF q] by blast
      have nb1: "\<not> b1" using br False by (cases b1) simp_all
      have m1: "m1 = st_mesh s" using noop r1 nb1 by (metis fst_conv snd_conv)
      have r2: "run_op env Coarsen_slivers opts m1 = (False, st_mesh s1)"
        and pr: "SILENT < verbosity opts \<longrightarrow> r = 0 \<longrightarrow> Print Could_not_satisfy \<in> set (st_trace s1)"
        using br nb1 False by simp_all
      have "st_mesh s1 = m1" using noop r2 by (metis fst_conv snd_conv)
      with m1 r1 r2 nb1 pr t show ?thesis by simp
    qed
  qed
qed

text \<open>
  C6: when the length loop returns, and operators that report no change leave the
  mesh alone, neither refinement nor coarsening can change the final mesh: the loop
  stops exactly at a fixed point of its two operators.
\<close>

theorem satisfy_lengths_exit:
  assumes "satisfy_lengths env r opts s = Some t"
    and "\<forall>op m. \<not> fst (run_op env op opts m) \<longrightarrow> snd (run_op env op opts m) = m"
  shows "\<not> fst (run_op env Refine_by_size opts (st_mesh t))
         \<and> \<not> fst (run_op env Coarsen_by_size opts (st_mesh t))"
proof -
  have "(\<forall>op m. \<not> fst (run_op env op opts m) \<longrightarrow> snd (run_op env op opts m) = m) \<longrightarrow>
        \<not> fst (run_op env Refine_by_size opts (st_mesh t))
         \<and> \<not> fst (run_op env Coarsen_by_size opts (st_mesh t))"
  proof (rule satisfy_lengths.raw_induct
      [where P = "\<lambda>env r opts s t. (\<forall>op m. \<not> fst (run_op env op opts m) \<longrightarrow> snd (run_op env op opts m) = m) \<longrightarrow>
        \<not> fst (run_op env Refine_by_size opts (st_mesh t))
         \<and> \<not> fst (run_op env Coarsen_by_size opts (st_mesh t))", OF _ assms(1)])
    fix f env r opts s t
    assume IH: "\<And>env r opts s t. f env r opts s = Some t \<Longrightarrow>
        (\<forall>op m. \<not> fst (run_op env op opts m) \<longrightarrow> snd (run_op env op opts m) = m) \<longrightarrow>
        \<not> fst (run_op env Refine_by_size opts (st_mesh t))
         \<and> \<not> fst (run_op env Coarsen_by_size opts (st_mesh t))"
      and step: "(case lengths_pass env r opts s of
                   (did_anything, s1) \<Rightarrow> if did_anything then f env r opts s1 else Some s1) = Some t"
    show "(\<forall>op m. \<not> fst (run_op env op opts m) \<longrightarrow> snd (run_op env op opts m) = m) \<longrightarrow>
        \<not> fst (run_op env Refine_by_size opts (st_mesh t))
         \<and> \<not> fst (run_op env Coarsen_by_size opts (st_mesh t))"
    proof
      assume noop: "\<forall>op m. \<not> fst (run_op env op opts m) \<longrightarrow> snd (run_op env op opts m) = m"
      obtain b s1 where p: "lengths_pass env r opts s = (b, s1)" by fastforce
      show "\<not> fst (run_op env Refine_by_size opts (st_mesh t))
         \<and> \<not> fst (run_op env Coarsen_by_size opts (st_mesh t))"
      proof (cases b)
        case True
        with step p have "f env r opts s1 = Some t" by simp
        from IH [OF this] noop show ?thesis by blast
      next
        case False
        with step p have t: "t = s1" by simp
        obtain b1 b2 m1 where r1: "run_op env Refine_by_size opts (st_mesh s) = (b1, m1)"
          and r2: "run_op env Coarsen_by_size opts m1 = (b2, st_mesh s1)" and b: "b = (b1 \<or> b2)"
          using lengths_pass_parts [OF p] by blast
        have "m1 = st_mesh s" using noop r1 b False by (metis fst_conv snd_conv)
        moreover have "st_mesh s1 = m1" using noop r2 b False by (metis fst_conv snd_conv)
        ultimately show ?thesis using r1 r2 b False t by simp
      qed
    qed
  qed
  with assms(2) show ?thesis by blast
qed


theorem satisfy_lengths_exit_witness:
  "\<exists>t. satisfy_lengths demo_env 0 demo_opts \<lparr>st_mesh = 0, st_trace = []\<rparr> = Some t
     \<and> \<not> fst (run_op demo_env Refine_by_size demo_opts (st_mesh t))
     \<and> \<not> fst (run_op demo_env Coarsen_by_size demo_opts (st_mesh t))"
proof -
  have noop: "\<forall>op m. \<not> fst (run_op demo_env op demo_opts m) \<longrightarrow> snd (run_op demo_env op demo_opts m) = m"
    by (simp add: demo_env_def)
  have "\<exists>t. satisfy_lengths demo_env 0 demo_opts \<lparr>st_mesh = 0, st_trace = []\<rparr> = Some t"
    by (subst satisfy_lengths.simps) (simp add: lengths_pass_def apply_op_def demo_env_def)
  then obtain t where t: "satisfy_lengths demo_env 0 demo_opts \<lparr>st_mesh = 0, st_trace = []\<rparr> = Some t" ..
  show ?thesis using t satisfy_lengths_exit [OF t noop] by blast
qed

text \<open>
  C7: \<open>satisfy_quality\<close> returns when edge swapping and sliver coarsening each
  strictly decrease a natural-number measure of the mesh whenever they report a
  change and never increase it otherwise.
\<close>

theorem satisfy_quality_terminates:
  fixes \<mu> :: "'mesh \<Rightarrow> nat"
  assumes "\<forall>m. case run_op env Swap_edges opts m of (ch, m') \<Rightarrow> if ch then \<mu> m' < \<mu> m else \<mu> m' \<le> \<mu> m"
    and "\<forall>m. case run_op env Coarsen_slivers opts m of (ch, m') \<Rightarrow> if ch then \<mu> m' < \<mu> m else \<mu> m' \<le> \<mu> m"
  shows "\<exists>t. satisfy_quality env r opts s = Some t"
  using quality_loop_terminates [OF assms] by (simp add: satisfy_quality_def Let_def)

theorem satisfy_quality_terminates_witness:
  "qual_min swap_env 3 < min_quality_desired demo_opts
   \<and> (\<exists>t. satisfy_quality swap_env 0 demo_opts \<lparr>st_mesh = 3, st_trace = []\<rparr> = Some t)"
proof -
  have h1: "\<forall>m. case run_op swap_env Swap_edges demo_opts m of (ch, m') \<Rightarrow> if ch then id m' < id m else id m' \<le> id m"
    by (simp add: swap_env_def)
  have h2: "\<forall>m. case run_op swap_env Coarsen_slivers demo_opts m of (ch, m') \<Rightarrow> if ch then id m' < id m else id m' \<le> id m"
    by (simp add: swap_env_def)
  have "qual_min swap_env 3 < min_quality_desired demo_opts" by (simp add: swap_env_def demo_opts_def)
  then show ?thesis using satisfy_quality_terminates [OF h1 h2, of 0 "\<lparr>st_mesh = 3, st_trace = []\<rparr>"] by blast
qed

text \<open>
  C8: when \<open>satisfy_quality\<close> returns (operators that report no change leaving
  the mesh alone), either the worst element quality reached the desired floor, or
  neither edge swapping nor sliver coarsening can change the final mesh and rank 0
  has printed that it could not satisfy the quality goal (when not silent): the loop
  gives up after a single attempt in which both operators fail.
\<close>

theorem satisfy_quality_outcome:
  assumes "satisfy_quality env r opts s = Some t"
    and "\<forall>op m. \<not> fst (run_op env op opts m) \<longrightarrow> snd (run_op env op opts m) = m"
  shows "min_quality_desired opts \<le> qual_min env (st_mesh t)
         \<or> (\<not> fst (run_op env Swap_edges opts (st_mesh t))
            \<and> \<not> fst (run_op env Coarsen_slivers opts (st_mesh t))
            \<and> (SILENT < verbosity opts \<longrightarrow> r = 0 \<longrightarrow> Print Could_not_satisfy \<in> set (st_trace t)))"
proof (cases "min_quality_desired opts \<le> qual_min env (st_mesh s)")
  case True
  with assms(1) have "t = emit (Coll Min_quality) s" by (simp add: satisfy_quality_def Let_def)
  with True show ?thesis by simp
next
  case False
  with assms(1) have "quality_loop env r opts
      (if EACH_REBUILD \<le> verbosity opts then say r Addressing_qualities (emit (Coll Min_quality) s)
       else emit (Coll Min_quality) s) = Some t"
    by (simp add: satisfy_quality_def Let_def)
  from quality_loop_outcome [OF this] assms(2) show ?thesis by blast
qed

theorem satisfy_quality_outcome_witness:
  "\<exists>t. satisfy_quality (demo_env\<lparr>qual_min := \<lambda>_. 0.3\<rparr>) 0 demo_opts \<lparr>st_mesh = 2, st_trace = []\<rparr> = Some t
     \<and> \<not> fst (run_op demo_env Swap_edges demo_opts (st_mesh t))
     \<and> Print Could_not_satisfy \<in> set (st_trace t)"
proof -
  let ?e = "demo_env\<lparr>qual_min := \<lambda>_. 0.3\<rparr>"
  have noop: "\<forall>op m. \<not> fst (run_op ?e op demo_opts m) \<longrightarrow> snd (run_op ?e op demo_opts m) = m"
    by (simp add: demo_env_def)
  have "\<exists>t. satisfy_quality ?e 0 demo_opts \<lparr>st_mesh = 2, st_trace = []\<rparr> = Some t"
    by (simp add: satisfy_quality_def demo_env_def demo_opts_def Let_def, subst quality_loop.simps)
       (simp add: quality_attempt_def apply_op_def)
  then obtain t where t: "satisfy_quality ?e 0 demo_opts \<lparr>st_mesh = 2, st_trace = []\<rparr> = Some t" ..
  have q: "\<not> min_quality_desired demo_opts \<le> qual_min ?e (st_mesh t)"
    by (simp add: demo_opts_def)
  have "SILENT < verbosity demo_opts" by (simp add: demo_opts_def less_verbosity_def)
  then show ?thesis using t q satisfy_quality_outcome [OF t noop] by (auto simp: demo_env_def)
qed

text \<open>
  C9: rank 0 prints the after-adapting report, with its goal check, exactly when the
  verbosity is \<open>EACH_ADAPT\<close>: at \<open>EXTRA_STATS\<close>, the most verbose level, the
  final check is skipped although every other verbosity test of the controller is a
  \<open>\<ge>\<close> comparison.
\<close>

theorem post_adapt_after_check:
  "Print After_adapting \<in> set (st_trace (post_adapt env 0 opts s))
   \<longleftrightarrow> verbosity opts = EACH_ADAPT \<or> Print After_adapting \<in> set (st_trace s)"
  by (cases "verbosity opts")
     (auto simp: post_adapt_def adapt_check_def do_histograms_def adapt_summary_def goal_stats_def
        get_minmax_def say_def emit_def Let_def less_verbosity_def less_eq_verbosity_def)

end
