(* ===== verification/Sort.thy ===== *)
theory Sort
  imports Prelude
begin

text \<open>
  \<open>sort.cpp\<close>: \<open>sort_by_keys(keys, width)\<close> returns the permutation that sorts
  the rows of a flat key array of \<open>width\<close> columns. The comparator
  \<open>CompareKeySets<T, N>\<close> walks the two rows and decides at the first column
  where they differ; \<open>parallel_sort\<close> is \<open>std::stable_sort\<close> in the serial
  build, modelled here (its code is the C++ library's) as a stable insertion sort.
  The theorems show that the comparator is the lexicographic order on rows, that
  the result is the library's stable \<open>sort_key\<close> of the identity permutation
  (so sorted and stable by the library's lemmas), and when the two aborts happen; on the
  \<open>LO\<close> and \<open>GO\<close> words of the two instantiations the order is the signed one.
\<close>

section \<open>The comparator\<close>

text \<open>\<open>CompareKeySets::operator()\<close>: the loop over the \<open>N\<close> columns of the two rows.\<close>

fun key_less :: "int list \<Rightarrow> int list \<Rightarrow> bool" where
  "key_less (x # xs) (y # ys) = (if x \<noteq> y then x < y else key_less xs ys)"
| "key_less _ _ = False"

definition compare_key_sets :: "nat \<Rightarrow> int list \<Rightarrow> nat \<Rightarrow> nat \<Rightarrow> bool" where
  "compare_key_sets n keys a b = key_less (gather n keys a) (gather n keys b)"

section \<open>The stable sort\<close>

text \<open>
  \<open>std::stable_sort(b, e, c)\<close>: an element is placed before the first element it
  is not greater than, so equal elements keep their order.
\<close>

fun stable_ins :: "('a \<Rightarrow> 'a \<Rightarrow> bool) \<Rightarrow> 'a \<Rightarrow> 'a list \<Rightarrow> 'a list" where
  "stable_ins lt x [] = [x]"
| "stable_ins lt x (y # ys) = (if lt y x then y # stable_ins lt x ys else x # y # ys)"

definition stable_sort :: "('a \<Rightarrow> 'a \<Rightarrow> bool) \<Rightarrow> 'a list \<Rightarrow> 'a list" where
  "stable_sort lt xs = foldr (stable_ins lt) xs []"

section \<open>sort\_by\_keys\<close>

text \<open>
  \<open>sort_by_keys_tmpl<N>\<close>: \<open>CHECK(keys.size() % N == 0)\<close>, then the identity
  permutation \<open>0, 1, ..., size/N - 1\<close> stably sorted by the comparator.
\<close>

definition sort_by_keys_tmpl :: "nat \<Rightarrow> int list \<Rightarrow> error + nat list" where
  "sort_by_keys_tmpl n keys =
     (if length keys mod n \<noteq> 0 then Inl (Check_failed ''keys.size() % N == 0'')
      else Inr (stable_sort (compare_key_sets n keys) [0..<length keys div n]))"

text \<open>\<open>sort_by_keys\<close>: the switch on the width; any other width reaches \<open>NORETURN\<close>.\<close>

definition sort_by_keys :: "int list \<Rightarrow> int \<Rightarrow> error + nat list" where
  "sort_by_keys keys width =
     (if width = 1 then sort_by_keys_tmpl 1 keys
      else if width = 2 then sort_by_keys_tmpl 2 keys
      else if width = 3 then sort_by_keys_tmpl 3 keys
      else Inl (Fail ''sort_by_keys: NORETURN''))"

text \<open>
  \<open>INST(LO)\<close> and \<open>INST(GO)\<close>: the two instantiations, on 32-bit and 64-bit
  keys. \<open>LO\<close> and \<open>GO\<close> are signed, so the comparator compares the values the
  words stand for (\<open>sint\<close>).
\<close>

definition sort_by_keys_LO :: "32 word list \<Rightarrow> int \<Rightarrow> error + nat list" where
  "sort_by_keys_LO keys width = sort_by_keys (map sint keys) width"

definition sort_by_keys_GO :: "64 word list \<Rightarrow> int \<Rightarrow> error + nat list" where
  "sort_by_keys_GO keys width = sort_by_keys (map sint keys) width"

section \<open>The comparator is the lexicographic order\<close>

lemma key_less_lex:
  "length xs = length ys \<Longrightarrow> key_less xs ys \<longleftrightarrow> xs < ys"
  by (induction xs ys rule: key_less.induct) auto

lemma compare_key_sets_lex:
  "compare_key_sets n keys a b \<longleftrightarrow> gather n keys a < gather n keys b"
  by (simp add: compare_key_sets_def key_less_lex)

section \<open>The stable sort is the library's insertion sort\<close>

lemma stable_ins_insort_key:
  fixes f :: "'a \<Rightarrow> 'b::linorder"
  assumes "\<And>x y. lt x y \<longleftrightarrow> f x < f y"
  shows "stable_ins lt x xs = insort_key f x xs"
  by (induction xs) (auto simp: assms not_less)

lemma stable_sort_sort_key:
  fixes f :: "'a \<Rightarrow> 'b::linorder"
  assumes "\<And>x y. lt x y \<longleftrightarrow> f x < f y"
  shows "stable_sort lt xs = sort_key f xs"
proof -
  have "\<And>x xs. stable_ins lt x xs = insort_key f x xs"
    by (rule stable_ins_insort_key) (rule assms)
  then have "stable_ins lt = insort_key f" by (intro ext)
  then show ?thesis by (simp add: stable_sort_def sort_key_def)
qed

lemma sort_by_keys_tmpl_sort_key:
  "length keys mod n = 0 \<Longrightarrow>
   sort_by_keys_tmpl n keys = Inr (sort_key (gather n keys) [0..<length keys div n])"
  using stable_sort_sort_key [of "compare_key_sets n keys" "gather n keys"]
  by (simp add: sort_by_keys_tmpl_def compare_key_sets_lex)

lemma sort_by_keys_Inr:
  assumes "sort_by_keys keys w = Inr p"
  shows "(w = 1 \<or> w = 2 \<or> w = 3) \<and> length keys mod nat w = 0
         \<and> p = sort_key (gather (nat w) keys) [0..<length keys div nat w]"
  using assms sort_by_keys_tmpl_sort_key [of keys 1] sort_by_keys_tmpl_sort_key [of keys 2]
    sort_by_keys_tmpl_sort_key [of keys 3]
  by (auto simp: sort_by_keys_def sort_by_keys_tmpl_def split: if_splits)

section \<open>Properties of sort\_by\_keys\<close>

text \<open>
  C14: for the widths the switch handles and a key array whose size is a multiple of
  the width, \<open>sort_by_keys\<close> returns the library's stable sort by row of the
  identity permutation: the comparator loop plus \<open>std::stable_sort\<close> implement
  \<open>sort_key\<close>.
\<close>

theorem sort_by_keys_is_sort_key:
  assumes "w = 1 \<or> w = 2 \<or> w = 3" and "length keys mod nat w = 0"
  shows "sort_by_keys keys w = Inr (sort_key (gather (nat w) keys) [0..<length keys div nat w])"
  using assms sort_by_keys_tmpl_sort_key [of keys 1] sort_by_keys_tmpl_sort_key [of keys 2]
    sort_by_keys_tmpl_sort_key [of keys 3]
  by (auto simp: sort_by_keys_def)

theorem sort_by_keys_is_sort_key_witness:
  "sort_by_keys [3, 1, 2, 5, 3, 0, 2, 5] 2 = Inr [1, 3, 2, 0]"
proof -
  have "sort_by_keys [3, 1, 2, 5, 3, 0, 2, 5] 2
        = Inr (sort_key (gather (nat 2) [3, 1, 2, 5, 3, 0, 2, 5 :: int])
                [0..<length [3, 1, 2, 5, 3, 0, 2, 5 :: int] div nat 2])"
    by (rule sort_by_keys_is_sort_key) simp_all
  then show ?thesis by (simp add: gather_def upt_rec)
qed

text \<open>
  C15: \<open>sort_by_keys\<close> aborts exactly for a width other than 1, 2 or 3
  (\<open>NORETURN\<close>), or for a key array whose size is not a multiple of the width
  (the \<open>CHECK\<close>).
\<close>

theorem sort_by_keys_errors:
  "sort_by_keys keys w = Inl e \<longleftrightarrow>
     (w \<notin> {1, 2, 3} \<and> e = Fail ''sort_by_keys: NORETURN'')
     \<or> (w \<in> {1, 2, 3} \<and> length keys mod nat w \<noteq> 0 \<and> e = Check_failed ''keys.size() % N == 0'')"
  by (auto simp: sort_by_keys_def sort_by_keys_tmpl_def)

text \<open>
  C16: the comparator is a strict weak order, as \<open>std::stable_sort\<close> requires: it
  is irreflexive and transitive, and two rows neither of which precedes the other
  are equal.
\<close>

theorem compare_key_sets_strict_weak_order:
  "\<not> compare_key_sets n keys a a
   \<and> (compare_key_sets n keys a b \<longrightarrow> compare_key_sets n keys b c \<longrightarrow> compare_key_sets n keys a c)
   \<and> (\<not> compare_key_sets n keys a b \<longrightarrow> \<not> compare_key_sets n keys b a
        \<longrightarrow> gather n keys a = gather n keys b)"
  by (auto simp: compare_key_sets_lex)

theorem compare_key_sets_strict_weak_order_witness:
  "compare_key_sets 2 [3, 1, 2, 5, 3, 0] 1 2 \<and> compare_key_sets 2 [3, 1, 2, 5, 3, 0] 2 0
   \<and> compare_key_sets 2 [3, 1, 2, 5, 3, 0] 1 0"
proof -
  have h: "compare_key_sets 2 [3, 1, 2, 5, 3, 0] 1 2" "compare_key_sets 2 [3, 1, 2, 5, 3, 0] 2 0"
    by (simp_all add: compare_key_sets_def gather_def upt_rec)
  then show ?thesis using compare_key_sets_strict_weak_order [of 2 "[3, 1, 2, 5, 3, 0]" 1 2 0] by blast
qed

section \<open>The instantiations on machine words\<close>

text \<open>
  On keys of one column the result of either instantiation lists every index once,
  in the signed order of the words: a word with its top bit set (a negative
  \<open>LO\<close> or \<open>GO\<close>) sorts before the non-negative ones.
\<close>

lemma sort_by_keys_word_sorted:
  fixes keys :: "'a::len word list"
  assumes "sort_by_keys (map sint keys) 1 = Inr p"
  shows "set p = {..<length keys} \<and> sorted_wrt (\<lambda>i j. keys ! i \<le>s keys ! j) p"
proof -
  have p: "p = sort_key (gather 1 (map sint keys)) [0..<length keys]"
    using sort_by_keys_Inr [OF assms] by simp
  have g: "\<And>i. i < length keys \<Longrightarrow> gather 1 (map sint keys) i = [sint (keys ! i)]"
    by (simp add: gather_def)
  have "sorted (map (gather 1 (map sint keys)) p)"
    using p by simp
  moreover have sp: "set p = {..<length keys}"
    using p by auto
  ultimately have "sorted (map (\<lambda>i. [sint (keys ! i)]) p)"
    by (metis (no_types, lifting) g lessThan_iff map_eq_conv)
  then have "sorted_wrt (\<lambda>i j. [sint (keys ! i)] \<le> [sint (keys ! j)]) p"
    by (simp add: sorted_map)
  then show ?thesis
    using sp by (simp add: word_sle_eq le_less)
qed

lemma sort_by_keys_LO_signed:
  "sort_by_keys_LO keys 1 = Inr p \<Longrightarrow>
   set p = {..<length keys} \<and> sorted_wrt (\<lambda>i j. keys ! i \<le>s keys ! j) p"
  unfolding sort_by_keys_LO_def by (rule sort_by_keys_word_sorted)

lemma sort_by_keys_GO_signed:
  "sort_by_keys_GO keys 1 = Inr p \<Longrightarrow>
   set p = {..<length keys} \<and> sorted_wrt (\<lambda>i j. keys ! i \<le>s keys ! j) p"
  unfolding sort_by_keys_GO_def by (rule sort_by_keys_word_sorted)

lemma sort_by_keys_LO_negative_first:
  "sort_by_keys_LO [5, 0xFFFFFFFF, 0] 1 = Inr [1, 2, 0]"
  by (simp add: sort_by_keys_LO_def sort_by_keys_def sort_by_keys_tmpl_def stable_sort_def
      compare_key_sets_def gather_def upt_rec)

end
