(* ===== verification/Gmsh.thy ===== *)
theory Gmsh
  imports Prelude
begin

text \<open>
  \<open>gmsh.cpp\<close>: \<open>gmsh::read(stream, mesh)\<close> reads an ASCII Gmsh 2.2 file. The
  model reads a list of tokens: a line that holds a section keyword is one
  \<open>GLine\<close> token, and the numbers of the other lines are \<open>GInt\<close> or \<open>GReal\<close>
  tokens in file order. \<open>seek_line\<close> skips tokens up to the keyword line, as
  \<open>std::getline\<close> skips lines; \<open>stream >> x\<close> takes the next number token. A
  failed extraction (a missing or non-numeric token) leaves the C++ stream in a
  failed state with unusable values; the model stops there with an error. The
  result records what \<open>read\<close> hands to the mesh construction: the dimension,
  the coordinate array it fills (\<open>None\<close> for an entry never written) and, for each
  entity dimension from the highest down, its vertex array and class ids.
\<close>

section \<open>Tokens and extraction\<close>

datatype gtok = GLine string | GInt int | GReal real

text \<open>\<open>seek_line\<close>: read lines until one equals \<open>want\<close>; \<open>CHECK(stream)\<close> fails at end of file.\<close>

fun seek_line :: "string \<Rightarrow> gtok list \<Rightarrow> error + gtok list" where
  "seek_line want [] = Inl (Check_failed ''stream'')"
| "seek_line want (t # ts) = (if t = GLine want then Inr ts else seek_line want ts)"

fun read_int :: "gtok list \<Rightarrow> error + int \<times> gtok list" where
  "read_int (GInt i # ts) = Inr (i, ts)"
| "read_int _ = Inl (Fail ''stream extraction failed'')"

fun read_real :: "gtok list \<Rightarrow> error + real \<times> gtok list" where
  "read_real (GReal r # ts) = Inr (r, ts)"
| "read_real (GInt i # ts) = Inr (of_int i, ts)"
| "read_real _ = Inl (Fail ''stream extraction failed'')"

section \<open>Element types\<close>

text \<open>\<open>type_dim\<close>: \<open>GMSH_VERT = 15\<close>, \<open>GMSH_LINE = 1\<close>, \<open>GMSH_TRI = 2\<close>, \<open>GMSH_TET = 4\<close>.\<close>

definition type_dim :: "int \<Rightarrow> error + nat" where
  "type_dim type =
     (if type = 15 then Inr 0 else if type = 1 then Inr 1
      else if type = 2 then Inr 2 else if type = 4 then Inr 3
      else Inl (Fail ''omega_h can only accept linear simplices from Gmsh''))"

section \<open>The node section\<close>

text \<open>
  The loop over the nodes: \<open>CHECK(number == i + 1)\<close>, then three coordinates,
  appended to \<open>node_coords\<close>.
\<close>

fun read_nodes :: "nat \<Rightarrow> nat \<Rightarrow> gtok list \<Rightarrow> error + real list list \<times> gtok list" where
  "read_nodes i 0 ts = Inr ([], ts)"
| "read_nodes i (Suc k) ts =
     sbind (read_int ts) (\<lambda>(number, ts).
     sbind (check (number = int i + 1) ''number == i + 1'') (\<lambda>_.
     sbind (read_real ts) (\<lambda>(x, ts).
     sbind (read_real ts) (\<lambda>(y, ts).
     sbind (read_real ts) (\<lambda>(z, ts).
     sbind (read_nodes (Suc i) k ts) (\<lambda>(rest, ts).
     Inr ([x, y, z] # rest, ts)))))))"

section \<open>The element section\<close>

text \<open>\<open>for (Int j = 2; j < ntags; ++j) stream >> tag;\<close>\<close>

fun skip_ints :: "nat \<Rightarrow> gtok list \<Rightarrow> error + gtok list" where
  "skip_ints 0 ts = Inr ts"
| "skip_ints (Suc k) ts = sbind (read_int ts) (\<lambda>(_, ts). skip_ints k ts)"

text \<open>The element's \<open>dim + 1\<close> node numbers, made zero-based.\<close>

fun read_node_numbers :: "nat \<Rightarrow> gtok list \<Rightarrow> error + int list \<times> gtok list" where
  "read_node_numbers 0 ts = Inr ([], ts)"
| "read_node_numbers (Suc k) ts =
     sbind (read_int ts) (\<lambda>(node_number, ts).
     sbind (read_node_numbers k ts) (\<lambda>(ns, ts). Inr ((node_number - 1) # ns, ts)))"

text \<open>\<open>ent_class_ids[dim].push_back(...)\<close>, \<open>ent_nodes[dim].push_back(...)\<close>.\<close>

definition push_back :: "nat \<Rightarrow> int list \<Rightarrow> int list list \<Rightarrow> int list list" where
  "push_back d vs xss = xss[d := xss ! d @ vs]"

text \<open>The loop over the elements, with the per-dimension class ids and nodes.\<close>

fun read_elements ::
  "nat \<Rightarrow> int list list \<times> int list list \<Rightarrow> gtok list
   \<Rightarrow> error + (int list list \<times> int list list) \<times> gtok list" where
  "read_elements 0 acc ts = Inr (acc, ts)"
| "read_elements (Suc k) (cls, nds) ts =
     sbind (read_int ts) (\<lambda>(number, ts).
     sbind (check (0 < number) ''number > 0'') (\<lambda>_.
     sbind (read_int ts) (\<lambda>(type, ts).
     sbind (type_dim type) (\<lambda>dim.
     sbind (read_int ts) (\<lambda>(ntags, ts).
     sbind (check (2 \<le> ntags) ''ntags >= 2'') (\<lambda>_.
     sbind (read_int ts) (\<lambda>(physical, ts).
     sbind (read_int ts) (\<lambda>(elementary, ts).
     sbind (skip_ints (nat (ntags - 2)) ts) (\<lambda>ts.
     sbind (read_node_numbers (dim + 1) ts) (\<lambda>(ns, ts).
     read_elements k (push_back dim [elementary] cls, push_back dim ns nds) ts))))))))))"

section \<open>The coordinate array\<close>

text \<open>
  \<open>host_coords[i * max_dim + j] = node_coords[i][j]\<close> for \<open>j < mesh.dim()\<close>:
  the bound of the inner loop is the dimension the \<open>Mesh\<close> object reports
  before anything is built (\<open>mdim\<close>), not \<open>max_dim\<close>. A write outside the
  array or a read past a node's three coordinates is undefined behaviour in C++;
  the model stops with an error there.
\<close>

fun copy_cols ::
  "nat \<Rightarrow> nat \<Rightarrow> real list \<Rightarrow> nat \<Rightarrow> nat \<Rightarrow> real option list \<Rightarrow> error + real option list" where
  "copy_cols i max_dim c 0 j hc = Inr hc"
| "copy_cols i max_dim c (Suc k) j hc =
     (if i * max_dim + j < length hc \<and> j < length c
      then copy_cols i max_dim c k (Suc j) (hc[i * max_dim + j := Some (c ! j)])
      else Inl (Fail ''index out of bounds''))"

fun copy_rows ::
  "nat \<Rightarrow> nat \<Rightarrow> int \<Rightarrow> real list list \<Rightarrow> real option list \<Rightarrow> error + real option list" where
  "copy_rows i max_dim mdim [] hc = Inr hc"
| "copy_rows i max_dim mdim (c # cs) hc =
     sbind (copy_cols i max_dim c (nat mdim) 0 hc) (\<lambda>hc. copy_rows (Suc i) max_dim mdim cs hc)"

definition copy_coords :: "nat \<Rightarrow> int \<Rightarrow> real list list \<Rightarrow> error + real option list" where
  "copy_coords max_dim mdim node_coords =
     copy_rows 0 max_dim mdim node_coords (replicate (length node_coords * max_dim) None)"

section \<open>The whole reader\<close>

record gmsh_result =
  gm_dim :: nat
  gm_coords :: "real option list"
  gm_ents :: "(nat \<times> int list \<times> int list) list"

text \<open>
  The arrays of one entity dimension: \<open>ndim_ents = ent_nodes[d].size() / neev\<close>
  rows of vertices and their class ids.
\<close>

definition ent_arrays :: "int list list \<Rightarrow> int list list \<Rightarrow> nat \<Rightarrow> nat \<times> int list \<times> int list" where
  "ent_arrays cls nds d =
     (let neev = d + 1; ndim_ents = length (nds ! d) div neev
      in (d, take (ndim_ents * neev) (nds ! d), take ndim_ents (cls ! d)))"

definition gmsh_read :: "int \<Rightarrow> gtok list \<Rightarrow> error + gmsh_result" where
  "gmsh_read mdim ts0 =
     sbind (seek_line ''$MeshFormat'' ts0) (\<lambda>ts.
     sbind (read_real ts) (\<lambda>(format, ts).
     sbind (read_int ts) (\<lambda>(file_type, ts).
     sbind (read_int ts) (\<lambda>(data_size, ts).
     sbind (check (file_type = 0) ''file_type == 0'') (\<lambda>_.
     sbind (check (data_size = 8) ''data_size == sizeof(Real)'') (\<lambda>_.
     sbind (seek_line ''$Nodes'' ts) (\<lambda>ts.
     sbind (read_int ts) (\<lambda>(nnodes, ts).
     sbind (check (0 \<le> nnodes) ''nnodes >= 0'') (\<lambda>_.
     sbind (read_nodes 0 (nat nnodes) ts) (\<lambda>(node_coords, ts).
     sbind (seek_line ''$Elements'' ts) (\<lambda>ts.
     sbind (read_int ts) (\<lambda>(nents, ts).
     sbind (check (0 \<le> nents) ''nents >= 0'') (\<lambda>_.
     sbind (read_elements (nat nents) (replicate 4 [], replicate 4 []) ts) (\<lambda>((cls, nds), ts).
     sbind (check (nds ! 2 \<noteq> []) ''ent_nodes[2].size()'') (\<lambda>_.
     (let max_dim = (if nds ! 3 \<noteq> [] then 3 else 2)
      in sbind (copy_coords max_dim mdim node_coords) (\<lambda>host_coords.
         Inr \<lparr>gm_dim = max_dim, gm_coords = host_coords,
              gm_ents = map (ent_arrays cls nds) (rev [0..<max_dim + 1])\<rparr>)))))))))))))))))"

section \<open>Files\<close>

text \<open>
  The token stream of a well-formed file, for the round-trip theorems: the format
  header, the numbered nodes and the numbered elements, each element with its
  physical and elementary tags, further tags, and one-based node numbers.
\<close>

record gmsh_elem =
  ge_type :: int
  ge_physical :: int
  ge_elementary :: int
  ge_tags :: "int list"
  ge_nodes :: "int list"

definition node_tokens :: "nat \<Rightarrow> real list \<Rightarrow> gtok list" where
  "node_tokens number xyz = GInt (int number) # map GReal xyz"

definition elem_tokens :: "nat \<Rightarrow> gmsh_elem \<Rightarrow> gtok list" where
  "elem_tokens number e =
     [GInt (int number), GInt (ge_type e), GInt (2 + int (length (ge_tags e))),
      GInt (ge_physical e), GInt (ge_elementary e)]
     @ map GInt (ge_tags e) @ map GInt (ge_nodes e)"

fun numbered :: "(nat \<Rightarrow> 'a \<Rightarrow> gtok list) \<Rightarrow> nat \<Rightarrow> 'a list \<Rightarrow> gtok list" where
  "numbered f k [] = []"
| "numbered f k (x # xs) = f k x @ numbered f (Suc k) xs"

definition gmsh_file :: "real list list \<Rightarrow> gmsh_elem list \<Rightarrow> gtok list" where
  "gmsh_file nodes elems =
     [GLine ''$MeshFormat'', GReal 2.2, GInt 0, GInt 8, GLine ''$EndMeshFormat'',
      GLine ''$Nodes'', GInt (int (length nodes))]
     @ numbered node_tokens 1 nodes
     @ [GLine ''$EndNodes'', GLine ''$Elements'', GInt (int (length elems))]
     @ numbered elem_tokens 1 elems
     @ [GLine ''$EndElements'']"

definition elem_dim :: "gmsh_elem \<Rightarrow> nat" where
  "elem_dim e = (case type_dim (ge_type e) of Inl _ \<Rightarrow> 0 | Inr d \<Rightarrow> d)"

definition elem_ok :: "gmsh_elem \<Rightarrow> bool" where
  "elem_ok e = (case type_dim (ge_type e) of Inl _ \<Rightarrow> False | Inr d \<Rightarrow> length (ge_nodes e) = d + 1)"

text \<open>What reading one element adds to the per-dimension arrays.\<close>

definition add_elem :: "gmsh_elem \<Rightarrow> int list list \<times> int list list \<Rightarrow> int list list \<times> int list list" where
  "add_elem e acc =
     (case acc of (cls, nds) \<Rightarrow>
        (push_back (elem_dim e) [ge_elementary e] cls,
         push_back (elem_dim e) (map (\<lambda>n. n - 1) (ge_nodes e)) nds))"

text \<open>The zero-based vertex lists and the class ids of the elements of one dimension.\<close>

definition dim_nodes :: "gmsh_elem list \<Rightarrow> nat \<Rightarrow> int list" where
  "dim_nodes elems d = concat (map (\<lambda>e. map (\<lambda>n. n - 1) (ge_nodes e)) (filter (\<lambda>e. elem_dim e = d) elems))"

definition dim_class_ids :: "gmsh_elem list \<Rightarrow> nat \<Rightarrow> int list" where
  "dim_class_ids elems d = map ge_elementary (filter (\<lambda>e. elem_dim e = d) elems)"

definition tri_file :: "gtok list" where
  "tri_file = gmsh_file [[0, 0, 0], [1, 0, 0], [0, 1, 0]]
     [\<lparr>ge_type = 2, ge_physical = 1, ge_elementary = 7, ge_tags = [0], ge_nodes = [1, 2, 3]\<rparr>,
      \<lparr>ge_type = 1, ge_physical = 1, ge_elementary = 5, ge_tags = [], ge_nodes = [1, 2]\<rparr>]"

definition tet_only_file :: "gtok list" where
  "tet_only_file = gmsh_file [[0, 0, 0], [1, 0, 0], [0, 1, 0], [0, 0, 1]]
     [\<lparr>ge_type = 4, ge_physical = 1, ge_elementary = 1, ge_tags = [], ge_nodes = [1, 2, 3, 4]\<rparr>]"

definition quad_file :: "gtok list" where
  "quad_file = gmsh_file [[0, 0, 0], [1, 0, 0], [1, 1, 0], [0, 1, 0]]
     [\<lparr>ge_type = 1, ge_physical = 1, ge_elementary = 1, ge_tags = [], ge_nodes = [1, 2]\<rparr>,
      \<lparr>ge_type = 3, ge_physical = 1, ge_elementary = 2, ge_tags = [], ge_nodes = [1, 2, 3, 4]\<rparr>]"

section \<open>Extraction lemmas\<close>

lemma seek_line_skip:
  "GLine want \<notin> set xs \<Longrightarrow> seek_line want (xs @ GLine want # ys) = Inr ys"
  by (induction xs) auto

lemma numbered_no_line:
  "(\<And>k x. GLine s \<notin> set (f k x)) \<Longrightarrow> GLine s \<notin> set (numbered f k xs)"
  by (induction xs arbitrary: k) auto

lemma node_tokens_no_line: "GLine s \<notin> set (node_tokens k x)"
  by (auto simp: node_tokens_def)

lemma elem_tokens_no_line: "GLine s \<notin> set (elem_tokens k e)"
  by (auto simp: elem_tokens_def)

lemma length_3_conv: "length xs = 3 \<longleftrightarrow> (\<exists>a b c. xs = [a, b, c])"
  by (auto simp: numeral_3_eq_3 length_Suc_conv)

lemma read_nodes_numbered:
  "\<forall>x\<in>set xs. length x = 3 \<Longrightarrow>
   read_nodes i (length xs) (numbered node_tokens (Suc i) xs @ rest) = Inr (xs, rest)"
proof (induction xs arbitrary: i)
  case Nil
  then show ?case by simp
next
  case (Cons x xs)
  then obtain a b c where x: "x = [a, b, c]" by (auto simp: length_3_conv)
  with Cons show ?case by (simp add: node_tokens_def check_def)
qed

lemma skip_ints_map: "skip_ints (length ts) (map GInt ts @ rest) = Inr rest"
  by (induction ts) simp_all

lemma read_node_numbers_map:
  "read_node_numbers (length ns) (map GInt ns @ rest) = Inr (map (\<lambda>n. n - 1) ns, rest)"
  by (induction ns) simp_all

lemma elem_okD:
  "elem_ok e \<Longrightarrow> type_dim (ge_type e) = Inr (elem_dim e) \<and> length (ge_nodes e) = elem_dim e + 1"
  by (auto simp: elem_ok_def elem_dim_def split: sum.splits)

lemma read_elements_prefix:
  "\<forall>e\<in>set es. elem_ok e \<Longrightarrow> 0 < k \<Longrightarrow>
   read_elements (length es + n) acc (numbered elem_tokens k es @ rest)
   = read_elements n (fold add_elem es acc) rest"
proof (induction es arbitrary: k acc)
  case Nil
  then show ?case by simp
next
  case (Cons e es)
  obtain cls nds where acc: "acc = (cls, nds)" by fastforce
  from Cons.prems have ok: "type_dim (ge_type e) = Inr (elem_dim e)"
    and len: "length (ge_nodes e) = elem_dim e + 1" by (simp_all add: elem_okD)
  have ih: "read_elements (length es + n) (add_elem e acc) (numbered elem_tokens (Suc k) es @ rest)
            = read_elements n (fold add_elem es (add_elem e acc)) rest"
    using Cons by simp
  have tags: "nat (2 + int (length (ge_tags e)) - 2) = length (ge_tags e)" by simp
  have et: "elem_tokens k e =
     [GInt (int k), GInt (ge_type e), GInt (2 + int (length (ge_tags e))),
      GInt (ge_physical e), GInt (ge_elementary e)] @ map GInt (ge_tags e) @ map GInt (ge_nodes e)"
    by (simp add: elem_tokens_def)
  have nn: "read_node_numbers (Suc (elem_dim e)) (map GInt (ge_nodes e) @ numbered elem_tokens (Suc k) es @ rest)
            = Inr (map (\<lambda>n. n - 1) (ge_nodes e), numbered elem_tokens (Suc k) es @ rest)"
    using read_node_numbers_map [of "ge_nodes e"] len by simp
  show ?case
    using Cons.prems(2) ok ih skip_ints_map [of "ge_tags e"] nn
    by (simp add: acc et tags check_def add_elem_def [of e] del: read_node_numbers.simps skip_ints.simps)
qed

lemma read_elements_numbered:
  "\<forall>e\<in>set es. elem_ok e \<Longrightarrow> 0 < k \<Longrightarrow>
   read_elements (length es) acc (numbered elem_tokens k es @ rest) = Inr (fold add_elem es acc, rest)"
  using read_elements_prefix [where n = 0] by simp

lemma numbered_append:
  "numbered f k (xs @ ys) = numbered f k xs @ numbered f (k + length xs) ys"
  by (induction xs arbitrary: k) simp_all

lemma read_elements_bad_type:
  assumes "type_dim (ge_type e) = Inl err" and "0 < k"
  shows "read_elements (Suc n) acc (elem_tokens k e @ rest) = Inl err"
proof -
  obtain cls nds where acc: "acc = (cls, nds)" by fastforce
  show ?thesis using assms by (simp add: acc elem_tokens_def check_def)
qed

lemma elem_dim_le: "elem_dim e \<le> 3"
  by (simp add: elem_dim_def type_dim_def split: sum.splits if_splits)

lemma push_back_nth:
  "d < length xss \<Longrightarrow> push_back d' vs xss ! d = xss ! d @ (if d = d' then vs else [])"
  by (simp add: push_back_def nth_list_update)

lemma fold_add_elem:
  assumes "length cls = 4" and "length nds = 4"
  shows "length (fst (fold add_elem es (cls, nds))) = 4 \<and> length (snd (fold add_elem es (cls, nds))) = 4
         \<and> (\<forall>d<4. fst (fold add_elem es (cls, nds)) ! d = cls ! d @ dim_class_ids es d
                 \<and> snd (fold add_elem es (cls, nds)) ! d = nds ! d @ dim_nodes es d)"
  using assms
proof (induction es arbitrary: cls nds)
  case Nil
  then show ?case by (simp add: dim_class_ids_def dim_nodes_def)
next
  case (Cons e es)
  let ?c = "push_back (elem_dim e) [ge_elementary e] cls"
  let ?n = "push_back (elem_dim e) (map (\<lambda>n. n - 1) (ge_nodes e)) nds"
  have l: "length ?c = 4" "length ?n = 4" using Cons.prems by (simp_all add: push_back_def)
  have ae: "add_elem e (cls, nds) = (?c, ?n)" by (simp add: add_elem_def)
  show ?case
    using Cons.IH [OF l] Cons.prems
    by (simp add: ae push_back_nth dim_class_ids_def dim_nodes_def)
qed

lemma fold_add_elem_init:
  "fold add_elem es (replicate 4 [], replicate 4 [])
   = (map (dim_class_ids es) [0..<4], map (dim_nodes es) [0..<4])"
proof -
  have h: "length (fst (fold add_elem es (replicate 4 [], replicate 4 []))) = 4
           \<and> length (snd (fold add_elem es (replicate 4 [], replicate 4 []))) = 4
           \<and> (\<forall>d<4. fst (fold add_elem es (replicate 4 [], replicate 4 [])) ! d = dim_class_ids es d
                   \<and> snd (fold add_elem es (replicate 4 [], replicate 4 [])) ! d = dim_nodes es d)"
    using fold_add_elem [of "replicate 4 []" "replicate 4 []" es] by simp
  have "fst (fold add_elem es (replicate 4 [], replicate 4 [])) = map (dim_class_ids es) [0..<4]"
    using h by (intro nth_equalityI) simp_all
  moreover have "snd (fold add_elem es (replicate 4 [], replicate 4 [])) = map (dim_nodes es) [0..<4]"
    using h by (intro nth_equalityI) simp_all
  ultimately show ?thesis by (metis prod.collapse)
qed

lemma length_dim_nodes:
  "\<forall>e\<in>set es. elem_ok e \<Longrightarrow>
   length (dim_nodes es d) = length (dim_class_ids es d) * (d + 1)"
  by (induction es) (auto simp: dim_nodes_def dim_class_ids_def elem_okD)

lemma ent_arrays_dims:
  assumes "\<forall>e\<in>set es. elem_ok e" and "d < 4"
  shows "ent_arrays (map (dim_class_ids es) [0..<4]) (map (dim_nodes es) [0..<4]) d
         = (d, dim_nodes es d, dim_class_ids es d)"
proof -
  have l: "length (dim_nodes es d) = length (dim_class_ids es d) * (d + 1)"
    using length_dim_nodes [OF assms(1)] .
  have q: "length (dim_nodes es d) div (d + 1) = length (dim_class_ids es d)"
  proof -
    have "length (dim_class_ids es d) * (d + 1) div (d + 1) = length (dim_class_ids es d)"
      by (rule nonzero_mult_div_cancel_right) simp
    then show ?thesis using l by simp
  qed
  have t1: "take (length (dim_nodes es d) div (d + 1) * (d + 1)) (dim_nodes es d) = dim_nodes es d"
    using q l by simp
  have t2: "take (length (dim_nodes es d) div (d + 1)) (dim_class_ids es d) = dim_class_ids es d"
    using q by simp
  have n1: "map (dim_nodes es) [0..<4] ! d = dim_nodes es d"
    and n2: "map (dim_class_ids es) [0..<4] ! d = dim_class_ids es d"
    using assms(2) by simp_all
  show ?thesis unfolding ent_arrays_def Let_def n1 n2 t1 t2 ..
qed


lemma update_fill:
  "(map Some pre @ replicate (Suc n) None)[length pre := Some x] = map Some (pre @ [x]) @ replicate n None"
  by (simp add: list_update_append)

lemma copy_cols_fill:
  assumes "length pre = i * md + j" and "j + k \<le> length c"
  shows "copy_cols i md c k j (map Some pre @ replicate (k + r) None)
         = Inr (map Some (pre @ take k (drop j c)) @ replicate r None)"
  using assms
proof (induction k arbitrary: j pre)
  case 0
  then show ?case by simp
next
  case (Suc k)
  have j: "j < length c" using Suc.prems(2) by simp
  have upd: "(map Some pre @ replicate (Suc k + r) None)[i * md + j := Some (c ! j)]
             = map Some (pre @ [c ! j]) @ replicate (k + r) None"
    using update_fill [of pre "k + r" "c ! j"] Suc.prems(1) by simp
  have ih: "copy_cols i md c k (Suc j) (map Some (pre @ [c ! j]) @ replicate (k + r) None)
            = Inr (map Some ((pre @ [c ! j]) @ take k (drop (Suc j) c)) @ replicate r None)"
    using Suc.IH [where j = "Suc j" and pre = "pre @ [c ! j]"] Suc.prems by simp
  have "take (Suc k) (drop j c) = c ! j # take k (drop (Suc j) c)"
    using j by (simp flip: Cons_nth_drop_Suc)
  then show ?case using Suc.prems(1) j upd ih by simp
qed

lemma copy_rows_fill:
  assumes "\<forall>c\<in>set cs. md \<le> length c" and "length pre = i * md"
  shows "copy_rows i md (int md) cs (map Some pre @ replicate (length cs * md) None)
         = Inr (map Some (pre @ concat (map (take md) cs)))"
  using assms
proof (induction cs arbitrary: i pre)
  case Nil
  then show ?case by simp
next
  case (Cons c cs)
  have r: "replicate (length (c # cs) * md) None = replicate (md + length cs * md) (None :: real option)"
    by simp
  have cc: "copy_cols i md c md 0 (map Some pre @ replicate (md + length cs * md) None)
            = Inr (map Some (pre @ take md c) @ replicate (length cs * md) None)"
    using copy_cols_fill [where pre = pre and i = i and md = md and j = 0 and k = md and c = c and r = "length cs * md"] Cons.prems by simp
  have ih: "copy_rows (Suc i) md (int md) cs (map Some (pre @ take md c) @ replicate (length cs * md) None)
            = Inr (map Some ((pre @ take md c) @ concat (map (take md) cs)))"
    using Cons.IH [where pre = "pre @ take md c" and i = "Suc i"] Cons.prems by simp
  show ?case unfolding r using cc ih by simp
qed

lemma copy_coords_fill:
  "\<forall>c\<in>set cs. md \<le> length c \<Longrightarrow>
   copy_coords md (int md) cs = Inr (map Some (concat (map (take md) cs)))"
  using copy_rows_fill [where cs = cs and md = md and pre = "[]" and i = 0] by (simp add: copy_coords_def)

lemma copy_rows_nonpos:
  "mdim \<le> 0 \<Longrightarrow> copy_rows i md mdim cs hc = Inr hc"
  by (induction cs arbitrary: i) simp_all

lemma copy_rows_overflow:
  assumes "cs \<noteq> []" and "\<forall>c\<in>set cs. length c = 3" and "length hc = 2 * (i + length cs)"
  shows "copy_rows i 2 3 cs hc = Inl (Fail ''index out of bounds'')"
  using assms
proof (induction cs arbitrary: i hc)
  case Nil
  then show ?case by simp
next
  case (Cons c cs)
  show ?case
  proof (cases cs)
    case Nil
    with Cons.prems show ?thesis by (simp add: numeral_3_eq_3)
  next
    case (Cons c' cs')
    obtain a b z where c: "c = [a, b, z]" using Cons.prems(2) by (auto simp: length_3_conv)
    let ?hc = "hc[i * 2 := Some a, i * 2 + 1 := Some b, i * 2 + 2 := Some z]"
    have l: "2 * i + 2 < length hc" using Cons.prems(3) Cons by simp
    have cc: "copy_cols i 2 c 3 0 hc = Inr ?hc"
      using l by (simp add: c numeral_3_eq_3)
    have "copy_rows (Suc i) 2 3 cs ?hc = Inl (Fail ''index out of bounds'')"
      using Cons.IH [where i = "Suc i" and hc = ?hc] Cons.prems Cons by simp
    with cc show ?thesis by simp
  qed
qed

section \<open>Reading a whole file\<close>

lemma dim_nodes_nonempty:
  "\<forall>e\<in>set es. elem_ok e \<Longrightarrow> dim_nodes es d \<noteq> [] \<longleftrightarrow> (\<exists>e\<in>set es. elem_dim e = d)"
  by (induction es) (auto simp: dim_nodes_def elem_okD simp flip: length_greater_0_conv)

lemma gmsh_read_file:
  assumes "\<forall>x\<in>set nodes. length x = 3" and "\<forall>e\<in>set elems. elem_ok e"
  shows "gmsh_read mdim (gmsh_file nodes elems) =
     (if dim_nodes elems 2 = [] then Inl (Check_failed ''ent_nodes[2].size()'')
      else (let md = (if dim_nodes elems 3 \<noteq> [] then 3 else 2)
            in sbind (copy_coords md mdim nodes) (\<lambda>hc.
                 Inr \<lparr>gm_dim = md, gm_coords = hc,
                      gm_ents = map (\<lambda>d. (d, dim_nodes elems d, dim_class_ids elems d)) (rev [0..<md + 1])\<rparr>)))"
proof -
  have n: "\<And>R. read_nodes 0 (length nodes) (numbered node_tokens (Suc 0) nodes @ R) = Inr (nodes, R)"
    using read_nodes_numbered [where i = 0, OF assms(1)] by simp
  have e: "\<And>R. read_elements (length elems) (replicate 4 [], replicate 4 []) (numbered elem_tokens (Suc 0) elems @ R)
             = Inr ((map (dim_class_ids elems) [0..<4], map (dim_nodes elems) [0..<4]), R)"
    using read_elements_numbered [OF assms(2)] fold_add_elem_init by simp
  have ents: "\<And>xs. \<forall>d\<in>set xs. d < 4 \<Longrightarrow>
      map (ent_arrays (map (dim_class_ids elems) [0..<4]) (map (dim_nodes elems) [0..<4])) xs
      = map (\<lambda>d. (d, dim_nodes elems d, dim_class_ids elems d)) xs"
    using ent_arrays_dims [OF assms(2)] by simp
  have n2: "map (dim_nodes elems) [0..<4] ! 2 = dim_nodes elems 2"
    and n3: "map (dim_nodes elems) [0..<4] ! 3 = dim_nodes elems 3"
    by (simp_all add: numeral_2_eq_2 numeral_3_eq_3)
  show ?thesis
    by (simp add: gmsh_read_def gmsh_file_def n e n2 n3 ents ent_arrays_dims [OF assms(2)] check_def Let_def
        del: read_nodes.simps read_elements.simps)
qed

section \<open>Properties of the reader\<close>

text \<open>
  C17: a well-formed file with at least one triangle, read into a mesh object whose
  dimension already equals the file's, gives back its nodes' coordinates (the first
  \<open>max_dim\<close> of each), and for each dimension from the highest down the
  zero-based vertex lists and elementary tags of its elements, in file order.
\<close>

theorem gmsh_read_roundtrip:
  assumes "\<forall>x\<in>set nodes. length x = 3" and "\<forall>e\<in>set elems. elem_ok e"
    and "\<exists>e\<in>set elems. elem_dim e = 2"
    and "mdim = (if \<exists>e\<in>set elems. elem_dim e = 3 then 3 else 2)"
  shows "gmsh_read mdim (gmsh_file nodes elems) =
     Inr \<lparr>gm_dim = nat mdim, gm_coords = map Some (concat (map (take (nat mdim)) nodes)),
          gm_ents = map (\<lambda>d. (d, dim_nodes elems d, dim_class_ids elems d)) (rev [0..<nat mdim + 1])\<rparr>"
proof -
  have tri: "dim_nodes elems 2 \<noteq> []" using assms(2,3) dim_nodes_nonempty by blast
  have tet: "dim_nodes elems 3 \<noteq> [] \<longleftrightarrow> (\<exists>e\<in>set elems. elem_dim e = 3)"
    using assms(2) dim_nodes_nonempty by blast
  have le: "\<And>md. md \<le> 3 \<Longrightarrow> \<forall>c\<in>set nodes. md \<le> length c" using assms(1) by simp
  show ?thesis
  proof (cases "\<exists>e\<in>set elems. elem_dim e = 3")
    case True
    then show ?thesis
      using assms tri tet copy_coords_fill [OF le [of 3]] by (simp add: gmsh_read_file upt_rec)
  next
    case False
    then show ?thesis
      using assms tri tet copy_coords_fill [OF le [of 2]] by (simp add: gmsh_read_file upt_rec)
  qed
qed

theorem gmsh_read_roundtrip_witness:
  "gmsh_read 2 tri_file =
     Inr \<lparr>gm_dim = 2, gm_coords = [Some 0, Some 0, Some 1, Some 0, Some 0, Some 1],
          gm_ents = [(2, [0, 1, 2], [7]), (1, [0, 1], [5]), (0, [], [])]\<rparr>"
proof -
  let ?n = "[[0, 0, 0], [1, 0, 0], [0, 1, 0 :: real]]"
  let ?e = "[\<lparr>ge_type = 2, ge_physical = 1, ge_elementary = 7, ge_tags = [0], ge_nodes = [1, 2, 3]\<rparr>,
             \<lparr>ge_type = 1, ge_physical = 1, ge_elementary = 5, ge_tags = [], ge_nodes = [1, 2]\<rparr>]"
  have h: "\<forall>x\<in>set ?n. length x = 3" "\<forall>e\<in>set ?e. elem_ok e" "\<exists>e\<in>set ?e. elem_dim e = 2"
    "(2::int) = (if \<exists>e\<in>set ?e. elem_dim e = 3 then 3 else 2)"
    by (simp_all add: elem_ok_def elem_dim_def type_dim_def)
  have "gmsh_read 2 tri_file =
     Inr \<lparr>gm_dim = nat 2, gm_coords = map Some (concat (map (take (nat 2)) ?n)),
          gm_ents = map (\<lambda>d. (d, dim_nodes ?e d, dim_class_ids ?e d)) (rev [0..<nat 2 + 1])\<rparr>"
    unfolding tri_file_def by (rule gmsh_read_roundtrip [OF h])
  then show ?thesis
    by (simp add: dim_nodes_def dim_class_ids_def elem_dim_def type_dim_def upt_rec)
qed

text \<open>
  The coordinate copy is bounded by \<open>mesh.dim()\<close> of the mesh object being
  filled, not by the file's dimension: for a mesh object that reports dimension 0
  or less, the read succeeds but no coordinate is ever written into the array that
  builds the mesh.
\<close>

theorem gmsh_read_coords_unwritten:
  assumes "\<forall>x\<in>set nodes. length x = 3" and "\<forall>e\<in>set elems. elem_ok e"
    and "\<exists>e\<in>set elems. elem_dim e = 2" and "mdim \<le> 0"
  shows "\<exists>r. gmsh_read mdim (gmsh_file nodes elems) = Inr r
             \<and> gm_coords r = replicate (length nodes * gm_dim r) None"
proof -
  have tri: "dim_nodes elems 2 \<noteq> []" using assms(2,3) dim_nodes_nonempty by blast
  have c: "\<And>md. copy_coords md mdim nodes = Inr (replicate (length nodes * md) None)"
    using copy_rows_nonpos [OF assms(4)] by (simp add: copy_coords_def)
  show ?thesis using assms(1,2) tri by (simp add: gmsh_read_file c Let_def)
qed

theorem gmsh_read_coords_unwritten_witness:
  "\<exists>r. gmsh_read 0 tri_file = Inr r \<and> gm_coords r = replicate (3 * gm_dim r) None"
proof -
  let ?n = "[[0, 0, 0], [1, 0, 0], [0, 1, 0 :: real]]"
  let ?e = "[\<lparr>ge_type = 2, ge_physical = 1, ge_elementary = 7, ge_tags = [0], ge_nodes = [1, 2, 3]\<rparr>,
             \<lparr>ge_type = 1, ge_physical = 1, ge_elementary = 5, ge_tags = [], ge_nodes = [1, 2]\<rparr>]"
  have h: "\<forall>x\<in>set ?n. length x = 3" "\<forall>e\<in>set ?e. elem_ok e" "\<exists>e\<in>set ?e. elem_dim e = 2"
    "(0::int) \<le> 0"
    by (simp_all add: elem_ok_def elem_dim_def type_dim_def)
  obtain r where r1: "gmsh_read 0 (gmsh_file ?n ?e) = Inr r"
    and r2: "gm_coords r = replicate (length ?n * gm_dim r) None"
    using gmsh_read_coords_unwritten [OF h] by blast
  have "length ?n * gm_dim r = 3 * gm_dim r" by simp
  with r1 r2 show ?thesis unfolding tri_file_def by auto
qed

text \<open>
  C18: a two-dimensional file read into a mesh object that reports dimension 3 makes
  the copy loop write a third coordinate per node into rows of two: the last node's
  write falls outside the coordinate array.
\<close>

theorem gmsh_read_coords_overflow:
  assumes "\<forall>x\<in>set nodes. length x = 3" and "nodes \<noteq> []" and "\<forall>e\<in>set elems. elem_ok e"
    and "\<exists>e\<in>set elems. elem_dim e = 2" and "\<forall>e\<in>set elems. elem_dim e \<noteq> 3"
  shows "gmsh_read 3 (gmsh_file nodes elems) = Inl (Fail ''index out of bounds'')"
proof -
  have tri: "dim_nodes elems 2 \<noteq> []" using assms(3,4) dim_nodes_nonempty by blast
  have tet: "dim_nodes elems 3 = []" using assms(3,5) dim_nodes_nonempty by blast
  have "copy_coords 2 3 nodes = Inl (Fail ''index out of bounds'')"
    unfolding copy_coords_def using copy_rows_overflow [OF assms(2,1)] by simp
  then show ?thesis using assms(1,3) tri tet by (simp add: gmsh_read_file Let_def)
qed

theorem gmsh_read_coords_overflow_witness:
  "gmsh_read 3 tri_file = Inl (Fail ''index out of bounds'')"
proof -
  let ?n = "[[0, 0, 0], [1, 0, 0], [0, 1, 0 :: real]]"
  let ?e = "[\<lparr>ge_type = 2, ge_physical = 1, ge_elementary = 7, ge_tags = [0], ge_nodes = [1, 2, 3]\<rparr>,
             \<lparr>ge_type = 1, ge_physical = 1, ge_elementary = 5, ge_tags = [], ge_nodes = [1, 2]\<rparr>]"
  have h: "\<forall>x\<in>set ?n. length x = 3" "?n \<noteq> []" "\<forall>e\<in>set ?e. elem_ok e" "\<exists>e\<in>set ?e. elem_dim e = 2"
    "\<forall>e\<in>set ?e. elem_dim e \<noteq> 3"
    by (simp_all add: elem_ok_def elem_dim_def type_dim_def)
  show ?thesis unfolding tri_file_def by (rule gmsh_read_coords_overflow [OF h])
qed

text \<open>
  C19: the reader insists on triangles: a file of well-formed elements none of which
  is a triangle, for example a tetrahedral mesh without its boundary faces, fails
  \<open>CHECK(ent_nodes[2].size())\<close>.
\<close>

theorem gmsh_read_requires_triangles:
  assumes "\<forall>x\<in>set nodes. length x = 3" and "\<forall>e\<in>set elems. elem_ok e"
    and "\<forall>e\<in>set elems. elem_dim e \<noteq> 2"
  shows "gmsh_read mdim (gmsh_file nodes elems) = Inl (Check_failed ''ent_nodes[2].size()'')"
proof -
  have "dim_nodes elems 2 = []" using assms(2,3) dim_nodes_nonempty by blast
  then show ?thesis using assms(1,2) by (simp add: gmsh_read_file)
qed

theorem gmsh_read_requires_triangles_witness:
  "gmsh_read 3 tet_only_file = Inl (Check_failed ''ent_nodes[2].size()'')"
proof -
  let ?n = "[[0, 0, 0], [1, 0, 0], [0, 1, 0], [0, 0, 1 :: real]]"
  let ?e = "[\<lparr>ge_type = 4, ge_physical = 1, ge_elementary = 1, ge_tags = [], ge_nodes = [1, 2, 3, 4]\<rparr>]"
  have h: "\<forall>x\<in>set ?n. length x = 3" "\<forall>e\<in>set ?e. elem_ok e" "\<forall>e\<in>set ?e. elem_dim e \<noteq> 2"
    by (simp_all add: elem_ok_def elem_dim_def type_dim_def)
  show ?thesis unfolding tet_only_file_def by (rule gmsh_read_requires_triangles [OF h])
qed

text \<open>
  C20: an element of a type other than point, line, triangle or tetrahedron, after
  well-formed elements, aborts the read with "can only accept linear simplices".
\<close>

theorem gmsh_read_rejects_nonsimplex:
  assumes "\<forall>x\<in>set nodes. length x = 3" and "\<forall>e\<in>set es1. elem_ok e"
    and "ge_type e \<notin> {15, 1, 2, 4}"
  shows "gmsh_read mdim (gmsh_file nodes (es1 @ e # es2))
         = Inl (Fail ''omega_h can only accept linear simplices from Gmsh'')"
proof -
  have bad: "type_dim (ge_type e) = Inl (Fail ''omega_h can only accept linear simplices from Gmsh'')"
    using assms(3) by (simp add: type_dim_def)
  have n: "\<And>R. read_nodes 0 (length nodes) (numbered node_tokens (Suc 0) nodes @ R) = Inr (nodes, R)"
    using read_nodes_numbered [where i = 0, OF assms(1)] by simp
  have e: "read_elements (length (es1 @ e # es2)) (replicate 4 [], replicate 4 [])
                 (numbered elem_tokens (Suc 0) (es1 @ e # es2) @ R)
               = Inl (Fail ''omega_h can only accept linear simplices from Gmsh'')" for R
  proof -
    have len: "length (es1 @ e # es2) = length es1 + Suc (length es2)" by simp
    have toks: "numbered elem_tokens (Suc 0) (es1 @ e # es2) @ R
      = numbered elem_tokens (Suc 0) es1 @ (elem_tokens (Suc (length es1)) e
          @ numbered elem_tokens (Suc (Suc (length es1))) es2 @ R)"
      by (simp add: numbered_append)
    show ?thesis
      unfolding len toks read_elements_prefix [OF assms(2) zero_less_Suc]
      by (rule read_elements_bad_type [OF bad zero_less_Suc])
  qed
  have len2: "nat (1 + (int (length es1) + int (length es2))) = length (es1 @ e # es2)" by simp
  have e2: "read_elements (nat (1 + (int (length es1) + int (length es2)))) (replicate 4 [], replicate 4 [])
              (numbered elem_tokens (Suc 0) (es1 @ e # es2) @ R)
            = Inl (Fail ''omega_h can only accept linear simplices from Gmsh'')" for R
    unfolding len2 by (rule e)
  show ?thesis
    by (simp add: gmsh_read_def gmsh_file_def n e2 check_def del: read_nodes.simps read_elements.simps)
qed

theorem gmsh_read_rejects_nonsimplex_witness:
  "gmsh_read 2 quad_file = Inl (Fail ''omega_h can only accept linear simplices from Gmsh'')"
proof -
  let ?n = "[[0, 0, 0], [1, 0, 0], [1, 1, 0], [0, 1, 0 :: real]]"
  let ?e1 = "[\<lparr>ge_type = 1, ge_physical = 1, ge_elementary = 1, ge_tags = [], ge_nodes = [1, 2]\<rparr>]"
  let ?e = "\<lparr>ge_type = 3, ge_physical = 1, ge_elementary = 2, ge_tags = [], ge_nodes = [1, 2, 3, 4]\<rparr>"
  have h: "\<forall>x\<in>set ?n. length x = 3" "\<forall>e\<in>set ?e1. elem_ok e" "ge_type ?e \<notin> {15, 1, 2, 4}"
    by (simp_all add: elem_ok_def type_dim_def)
  have "gmsh_read 2 (gmsh_file ?n (?e1 @ ?e # []))
        = Inl (Fail ''omega_h can only accept linear simplices from Gmsh'')"
    by (rule gmsh_read_rejects_nonsimplex [OF h])
  then show ?thesis by (simp add: quad_file_def)
qed

end
