(* ===== verification/Vtk.thy ===== *)
theory Vtk
  imports Prelude
begin

text \<open>
  \<open>vtk.cpp\<close>: the VTK XML unstructured-grid writer and reader (\<open>write_vtu\<close>,
  \<open>read_vtu\<close> and their helpers), for the build without zlib; a piece may be one
  of several ranks, whose file adds owners and global numbers. A file is
  modelled as a list of items: an XML tag (element name, kind, attributes) or the
  binary text of a data array. \<open>xml::read_tag\<close>, \<open>base64\<close> and the printing of
  tags are outside \<open>src/\<close>; the model takes the lexer to return the tags the writer
  printed, and base64 to be the identity on the bytes it encodes. Data arrays are
  kept as bytes, so byte order, sizes and type names are modelled exactly:
  integers of \<open>w\<close> bits are \<open>w word\<close>s, \<open>Real\<close> values are the 64-bit patterns of
  the doubles, stored little-endian as on the machines Omega\_h runs on.
  The lemmas read back, in turn, bytes, decimal counts, one array, a list of
  tags, the cells and a whole file (\<open>read_write_vtu\<close>); the properties derive
  from that what a round trip keeps and what it changes, and why files of edges
  are refused.
\<close>

section \<open>Typed arrays and their bytes\<close>

datatype vtype = OMEGA_H_I8 | OMEGA_H_I32 | OMEGA_H_I64 | OMEGA_H_F64

datatype varray =
    AI8 "8 word list" | AI32 "32 word list" | AI64 "64 word list" | AF64 "64 word list"

fun array_type :: "varray \<Rightarrow> vtype" where
  "array_type (AI8 _) = OMEGA_H_I8"
| "array_type (AI32 _) = OMEGA_H_I32"
| "array_type (AI64 _) = OMEGA_H_I64"
| "array_type (AF64 _) = OMEGA_H_F64"

fun array_size :: "varray \<Rightarrow> nat" where
  "array_size (AI8 xs) = length xs"
| "array_size (AI32 xs) = length xs"
| "array_size (AI64 xs) = length xs"
| "array_size (AF64 xs) = length xs"

text \<open>\<open>Traits<T>::name()\<close> and \<open>sizeof(T)\<close>.\<close>

fun type_name :: "vtype \<Rightarrow> string" where
  "type_name OMEGA_H_I8 = ''Int8''"
| "type_name OMEGA_H_I32 = ''Int32''"
| "type_name OMEGA_H_I64 = ''Int64''"
| "type_name OMEGA_H_F64 = ''Float64''"

fun type_size :: "vtype \<Rightarrow> nat" where
  "type_size OMEGA_H_I8 = 1"
| "type_size OMEGA_H_I32 = 4"
| "type_size OMEGA_H_I64 = 8"
| "type_size OMEGA_H_F64 = 8"

text \<open>The \<open>n\<close> bytes of a value, least significant first, and back.\<close>

fun le_bytes :: "nat \<Rightarrow> nat \<Rightarrow> 8 word list" where
  "le_bytes 0 x = []"
| "le_bytes (Suc n) x = word_of_nat x # le_bytes n (x div 256)"

fun le_value :: "8 word list \<Rightarrow> nat" where
  "le_value [] = 0"
| "le_value (b # bs) = unat b + 256 * le_value bs"

definition word_bytes :: "nat \<Rightarrow> 'a::len word \<Rightarrow> 8 word list" where
  "word_bytes n w = le_bytes n (unat w)"

text \<open>The bytes of an array, as \<open>HostRead<T>\<close> lays them out in memory.\<close>

fun array_bytes :: "varray \<Rightarrow> 8 word list" where
  "array_bytes (AI8 xs) = concat (map (word_bytes 1) xs)"
| "array_bytes (AI32 xs) = concat (map (word_bytes 4) xs)"
| "array_bytes (AI64 xs) = concat (map (word_bytes 8) xs)"
| "array_bytes (AF64 xs) = concat (map (word_bytes 8) xs)"

text \<open>
  \<open>binary::swap_if_needed\<close> on a value read from a file of the given byte order:
  on a little-endian machine the bytes of a big-endian file are reversed.
\<close>

definition decode_value :: "bool \<Rightarrow> 8 word list \<Rightarrow> 'a::len word" where
  "decode_value is_little_endian bs =
     word_of_nat (le_value (if is_little_endian then bs else rev bs))"

definition chunks :: "nat \<Rightarrow> nat \<Rightarrow> 8 word list \<Rightarrow> 8 word list list" where
  "chunks k n bs = map (\<lambda>i. take k (drop (i * k) bs)) [0..<n]"

text \<open>\<open>base64::decode\<close> into a \<open>HostWrite<T>(size)\<close>, then \<open>swap_if_needed\<close>.\<close>

fun decode_array :: "vtype \<Rightarrow> bool \<Rightarrow> nat \<Rightarrow> 8 word list \<Rightarrow> varray" where
  "decode_array OMEGA_H_I8 le n bs = AI8 (map (decode_value le) (chunks 1 n bs))"
| "decode_array OMEGA_H_I32 le n bs = AI32 (map (decode_value le) (chunks 4 n bs))"
| "decode_array OMEGA_H_I64 le n bs = AI64 (map (decode_value le) (chunks 8 n bs))"
| "decode_array OMEGA_H_F64 le n bs = AF64 (map (decode_value le) (chunks 8 n bs))"

section \<open>Decimal text\<close>

text \<open>\<open>to_string\<close> of an integer, and \<open>std::stoi\<close> on the attribute text.\<close>

fun nat_digits :: "nat \<Rightarrow> string" where
  "nat_digits n = (if n < 10 then [char_of (48 + n)] else nat_digits (n div 10) @ [char_of (48 + n mod 10)])"

declare nat_digits.simps [simp del]

definition to_string :: "int \<Rightarrow> string" where
  "to_string i = (if i < 0 then ''-'' @ nat_digits (nat (- i)) else nat_digits (nat i))"

definition is_digit :: "char \<Rightarrow> bool" where
  "is_digit c = (48 \<le> (of_char c :: nat) \<and> (of_char c :: nat) \<le> 57)"

fun digits_value :: "nat \<Rightarrow> string \<Rightarrow> nat" where
  "digits_value acc [] = acc"
| "digits_value acc (c # cs) = digits_value (10 * acc + (of_char c - 48 :: nat)) cs"

text \<open>
  \<open>std::stoi\<close>: leading white space, an optional sign, then the longest run of
  digits; no digit throws \<open>invalid_argument\<close>, a value outside \<open>int\<close> throws
  \<open>out_of_range\<close>.
\<close>

definition is_space :: "char \<Rightarrow> bool" where
  "is_space c = (c = CHR '' '' \<or> (9 \<le> (of_char c :: nat) \<and> (of_char c :: nat) \<le> 13))"

definition stoi :: "string \<Rightarrow> error + int" where
  "stoi s =
     (let s1 = dropWhile is_space s;
          neg = (s1 \<noteq> [] \<and> hd s1 = CHR ''-'');
          s2 = (if s1 \<noteq> [] \<and> (hd s1 = CHR ''-'' \<or> hd s1 = CHR ''+'') then tl s1 else s1);
          ds = takeWhile is_digit s2;
          v = int (digits_value 0 ds);
          i = (if neg then - v else v)
      in if ds = [] then Inl (Fail ''std::invalid_argument'')
         else if i < - (2 ^ 31) \<or> 2 ^ 31 \<le> i then Inl (Fail ''std::out_of_range'')
         else Inr i)"

section \<open>XML items\<close>

datatype tag_kind = START | END | SELF_CLOSING

record xml_tag =
  elem_name :: string
  kind :: tag_kind
  attribs :: "(string \<times> string) list"

datatype vitem = XTag xml_tag | XText "8 word list"

text \<open>\<open>st.attribs[k]\<close> on a \<open>std::map\<close>: the empty string when \<open>k\<close> is absent.\<close>

definition attrib :: "xml_tag \<Rightarrow> string \<Rightarrow> string" where
  "attrib t k = (case map_of (attribs t) k of Some v \<Rightarrow> v | None \<Rightarrow> [])"

text \<open>\<open>xml::read_tag\<close> and \<open>base64::read_encoded\<close>: the next item.\<close>

fun read_tag :: "vitem list \<Rightarrow> error + xml_tag \<times> vitem list" where
  "read_tag (XTag t # rest) = Inr (t, rest)"
| "read_tag _ = Inl (Fail ''xml::read_tag'')"

fun read_encoded :: "vitem list \<Rightarrow> error + 8 word list \<times> vitem list" where
  "read_encoded (XText bs # rest) = Inr (bs, rest)"
| "read_encoded _ = Inl (Fail ''base64::read_encoded'')"

definition start_tag :: "string \<Rightarrow> (string \<times> string) list \<Rightarrow> vitem" where
  "start_tag name atts = XTag \<lparr>elem_name = name, kind = START, attribs = atts\<rparr>"

definition end_tag :: "string \<Rightarrow> vitem" where
  "end_tag name = XTag \<lparr>elem_name = name, kind = END, attribs = []\<rparr>"

section \<open>Writing arrays and tags\<close>

text \<open>\<open>describe_array<T>\<close>: the attributes of a \<open>DataArray\<close>.\<close>

definition describe_array :: "vtype \<Rightarrow> string \<Rightarrow> nat \<Rightarrow> (string \<times> string) list" where
  "describe_array ty name ncomps =
     [(''type'', type_name ty), (''Name'', name), (''NumberOfComponents'', to_string (int ncomps)),
      (''format'', ''binary'')]"

text \<open>
  \<open>write_array\<close> without zlib: the start tag, the encoded \<open>size_t\<close> byte count
  followed by the encoded bytes of the array, the end tag.
\<close>

definition write_array :: "string \<Rightarrow> nat \<Rightarrow> varray \<Rightarrow> vitem list" where
  "write_array name ncomps a =
     [start_tag ''DataArray'' (describe_array (array_type a) name ncomps),
      XText (le_bytes 8 (type_size (array_type a) * array_size a) @ array_bytes a),
      end_tag ''DataArray'']"

record vtag =
  tg_name :: string
  tg_ncomps :: nat
  tg_data :: varray
  tg_viz :: bool    \<comment> \<open>\<open>outflags() & OMEGA_H_DO_VIZ\<close>\<close>

text \<open>\<open>vectors_2d_to_3d\<close>: a zero third component (the bits of \<open>0.0\<close>) after each pair.\<close>

fun vectors_2d_to_3d :: "64 word list \<Rightarrow> 64 word list" where
  "vectors_2d_to_3d (x # y # rest) = x # y # 0 # vectors_2d_to_3d rest"
| "vectors_2d_to_3d _ = []"

fun vectors_3d_to_2d :: "64 word list \<Rightarrow> 64 word list" where
  "vectors_3d_to_2d (x # y # z # rest) = x # y # vectors_3d_to_2d rest"
| "vectors_3d_to_2d _ = []"

text \<open>\<open>write_tag\<close>: only tags marked for visualisation; two-component real fields of a
  2D mesh are written with a third, zero component.\<close>

definition write_tag :: "vtag \<Rightarrow> nat \<Rightarrow> vitem list" where
  "write_tag t space_dim =
     (if \<not> tg_viz t then []
      else case tg_data t of
             AF64 xs \<Rightarrow>
               if space_dim = 2 \<and> tg_ncomps t = space_dim
               then write_array (tg_name t) 3 (AF64 (vectors_2d_to_3d xs))
               else write_array (tg_name t) (tg_ncomps t) (AF64 xs)
           | a \<Rightarrow> write_array (tg_name t) (tg_ncomps t) a)"

section \<open>The mesh the writer reads\<close>

text \<open>
  What \<open>write_vtu\<close> asks of the \<open>Mesh\<close>: its dimension, the entity counts, the
  vertices of the entities of each dimension (\<open>ask_verts_of\<close>, as \<open>LO\<close>), the
  tags of each dimension in their order, the owner ranks and the communicator size.
\<close>

record vmesh =
  vm_dim :: nat
  vm_nents :: "nat \<Rightarrow> nat"
  vm_verts_of :: "nat \<Rightarrow> 32 word list"
  vm_tags :: "nat \<Rightarrow> vtag list"
  vm_owners :: "nat \<Rightarrow> 32 word list"
  vm_comm_size :: nat

definition find_tag :: "vtag list \<Rightarrow> string \<Rightarrow> vtag option" where
  "find_tag ts name = find (\<lambda>t. tg_name t = name) ts"

text \<open>\<open>mesh->get_tag<T>(dim, name)\<close>: fails when absent or of another type.\<close>

definition get_tag :: "vmesh \<Rightarrow> nat \<Rightarrow> string \<Rightarrow> vtype \<Rightarrow> error + vtag" where
  "get_tag m d name ty =
     (case find_tag (vm_tags m d) name of
        None \<Rightarrow> Inl (Fail ''get_tag: no such tag'')
      | Some t \<Rightarrow> if array_type (tg_data t) = ty then Inr t else Inl (Fail ''get_tag: wrong type''))"

section \<open>Writing a piece\<close>

text \<open>\<open>vtk_types\<close>: \<open>VTK_VERTEX\<close>, \<open>VTK_LINE\<close>, \<open>VTK_TRIANGLE\<close>, \<open>VTK_TETRA\<close>.\<close>

definition vtk_type :: "nat \<Rightarrow> 8 word" where
  "vtk_type d = [1, 3, 5, 10] ! d"

text \<open>\<open>write_connectivity\<close>: the cell types, the cell vertices and the running ends.\<close>

definition write_connectivity :: "vmesh \<Rightarrow> nat \<Rightarrow> vitem list" where
  "write_connectivity m cd =
     (let n = vm_nents m cd; deg = cd + 1
      in write_array ''types'' 1 (AI8 (replicate n (vtk_type cd)))
         @ write_array ''connectivity'' 1 (AI32 (vm_verts_of m cd))
         @ write_array ''offsets'' 1 (AI32 (map (\<lambda>i. word_of_nat (deg + i * deg)) [0..<n])))"

definition write_locals_and_owners :: "vmesh \<Rightarrow> nat \<Rightarrow> vitem list" where
  "write_locals_and_owners m d =
     write_array ''local'' 1 (AI32 (map word_of_nat [0..<vm_nents m d]))
     @ (if vm_comm_size m = 1 then [] else write_array ''owner'' 1 (AI32 (vm_owners m d)))"

text \<open>
  \<open>write_vtkfile_vtu_start_tag\<close> on a little-endian CPU without zlib, and
  \<open>write_piece_start_tag\<close>.
\<close>

definition write_vtkfile_vtu_start_tag :: vitem where
  "write_vtkfile_vtu_start_tag =
     start_tag ''VTKFile'' [(''type'', ''UnstructuredGrid''), (''byte_order'', ''LittleEndian''),
                            (''header_type'', ''UInt64'')]"

definition write_piece_start_tag :: "vmesh \<Rightarrow> nat \<Rightarrow> vitem" where
  "write_piece_start_tag m cd =
     start_tag ''Piece'' [(''NumberOfPoints'', to_string (int (vm_nents m 0))),
                          (''NumberOfCells'', to_string (int (vm_nents m cd)))]"

text \<open>
  \<open>write_vtu(stream, mesh, cell_dim)\<close>. The byte order written is
  \<open>LittleEndian\<close> and the header type \<open>UInt64\<close> (\<open>Traits<size_t>\<close>).
\<close>

definition write_vtu :: "vmesh \<Rightarrow> nat \<Rightarrow> error + vitem list" where
  "write_vtu m cd =
     sbind (get_tag m 0 ''coordinates'' OMEGA_H_F64) (\<lambda>coords.
     sbind (case find_tag (vm_tags m 0) ''global'' of
              None \<Rightarrow> Inr []
            | Some _ \<Rightarrow> sbind (get_tag m 0 ''global'' OMEGA_H_I64) (\<lambda>g. Inr (write_tag g (vm_dim m)))) (\<lambda>globals.
     Inr ([write_vtkfile_vtu_start_tag, start_tag ''UnstructuredGrid'' [], write_piece_start_tag m cd,
           start_tag ''Cells'' []]
          @ write_connectivity m cd
          @ [end_tag ''Cells'', start_tag ''Points'' []]
          @ write_tag coords (vm_dim m)
          @ [end_tag ''Points'', start_tag ''PointData'' []]
          @ write_locals_and_owners m 0
          @ globals
          @ concat (map (\<lambda>t. write_tag t (vm_dim m))
                      (filter (\<lambda>t. tg_name t \<noteq> ''coordinates'' \<and> tg_name t \<noteq> ''global'') (vm_tags m 0)))
          @ [end_tag ''PointData'', start_tag ''CellData'' []]
          @ write_locals_and_owners m cd
          @ concat (map (\<lambda>t. write_tag t (vm_dim m)) (vm_tags m cd))
          @ [end_tag ''CellData'', end_tag ''Piece'', end_tag ''UnstructuredGrid'', end_tag ''VTKFile''])))"

section \<open>Reading arrays and tags\<close>

text \<open>\<open>CHECK(xml::read_tag(stream).elem_name == name)\<close>.\<close>

definition expect_tag :: "string \<Rightarrow> vitem list \<Rightarrow> error + vitem list" where
  "expect_tag name ts =
     sbind (read_tag ts) (\<lambda>(t, ts).
     sbind (check (elem_name t = name) (''elem_name == '' @ name)) (\<lambda>_. Inr ts))"

text \<open>
  \<open>read_array_start_tag\<close>: \<open>None\<close> for the end tag that closes a list of arrays;
  an unknown type name leaves \<open>*type_out\<close> as it was (\<open>type0\<close>).
\<close>

definition read_array_start_tag ::
  "vtype \<Rightarrow> vitem list \<Rightarrow> error + (vtype \<times> string \<times> int) option \<times> vitem list" where
  "read_array_start_tag type0 ts =
     sbind (read_tag ts) (\<lambda>(st, ts).
       if elem_name st \<noteq> ''DataArray'' \<or> kind st \<noteq> START
       then sbind (check (kind st = END) ''st.type == xml::Tag::END'') (\<lambda>_. Inr (None, ts))
       else (let tn = attrib st ''type'';
                 ty = (if tn = ''Int8'' then OMEGA_H_I8 else if tn = ''Int32'' then OMEGA_H_I32
                       else if tn = ''Int64'' then OMEGA_H_I64 else if tn = ''Float64'' then OMEGA_H_F64
                       else type0)
             in sbind (stoi (attrib st ''NumberOfComponents'')) (\<lambda>nc.
                sbind (check (attrib st ''format'' = ''binary'') ''st.attribs[format] == binary'') (\<lambda>_.
                Inr (Some (ty, attrib st ''Name'', nc), ts)))))"

text \<open>
  \<open>read_array<T>(stream, size, is_little_endian, is_compressed)\<close> without zlib:
  the header is the first eight bytes, a \<open>size_t\<close> in the file's byte order,
  checked against \<open>std::size_t(size) * sizeof(T)\<close> computed modulo \<open>2^64\<close>. A
  negative \<open>size\<close> for \<open>HostWrite\<close>, or encoded text shorter than the bytes it is
  decoded into, has no defined behaviour; the model stops there.
\<close>

definition read_array :: "vtype \<Rightarrow> int \<Rightarrow> bool \<Rightarrow> bool \<Rightarrow> vitem list \<Rightarrow> error + varray \<times> vitem list" where
  "read_array ty sz le compressed ts =
     sbind (read_encoded ts) (\<lambda>(enc, ts).
     sbind (check (\<not> compressed) ''is_compressed == false'') (\<lambda>_.
     if length enc < 8 then Inl (Fail ''base64::decode: short header'')
     else (let ub = unat (decode_value le (take 8 enc) :: 64 word); data = drop 8 enc
           in sbind (check (int ub = (sz * int (type_size ty)) mod 2 ^ 64)
                       ''uncompressed_bytes == size * sizeof T'') (\<lambda>_.
              if sz < 0 then Inl (Fail ''HostWrite: negative size'')
              else if length data < ub then Inl (Fail ''base64::decode: short data'')
              else Inr (decode_array ty le (nat sz) data, ts)))))"

text \<open>
  \<open>read_tag(stream, mesh, ent_dim, ...)\<close>: one data array added as a tag of the
  entities of one dimension, replacing a tag of the same name; \<open>None\<close> when the
  list ended.
\<close>

definition read_tag_into ::
  "int \<Rightarrow> bool \<Rightarrow> bool \<Rightarrow> vtag list \<Rightarrow> vitem list \<Rightarrow> error + vtag list option \<times> vitem list" where
  "read_tag_into nents le compressed tags ts =
     sbind (read_array_start_tag OMEGA_H_I8 ts) (\<lambda>(r, ts).
       case r of
         None \<Rightarrow> Inr (None, ts)
       | Some (ty, name, nc) \<Rightarrow>
           sbind (read_array ty (nents * nc) le compressed ts) (\<lambda>(a, ts).
           sbind (read_tag ts) (\<lambda>(et, ts).
           sbind (check (elem_name et = ''DataArray'') ''et.elem_name == DataArray'') (\<lambda>_.
           sbind (check (kind et = END) ''et.type == xml::Tag::END'') (\<lambda>_.
           Inr (Some (filter (\<lambda>t. tg_name t \<noteq> name) tags
                      @ [\<lparr>tg_name = name, tg_ncomps = nat nc, tg_data = a, tg_viz = True\<rparr>]), ts))))))"

text \<open>\<open>while (read_tag(stream, mesh, dim, ...));\<close>: each call consumes a tag.\<close>

function read_tags ::
  "int \<Rightarrow> bool \<Rightarrow> bool \<Rightarrow> vtag list \<Rightarrow> vitem list \<Rightarrow> error + vtag list \<times> vitem list" where
  "read_tags nents le compressed tags ts =
     sbind (read_tag_into nents le compressed tags ts) (\<lambda>(r, ts').
       case r of None \<Rightarrow> Inr (tags, ts') | Some tags' \<Rightarrow> read_tags nents le compressed tags' ts')"
  by pat_completeness auto
termination
proof (relation "measure (\<lambda>(_, _, _, _, ts). length ts)")
  have rt: "length r1 < length xs" if "read_tag xs = Inr (t1, r1)" for xs t1 r1
    using that by (cases xs rule: read_tag.cases) auto
  have re: "length r1 < length xs" if "read_encoded xs = Inr (t1, r1)" for xs t1 r1
    using that by (cases xs rule: read_encoded.cases) auto
  fix nents le compressed tags ts a x y x2
  assume "read_tag_into nents le compressed tags ts = Inr a" and "(x, y) = a" and "x = Some x2"
  then have h: "read_tag_into nents le compressed tags ts = Inr (Some x2, y)" by simp
  have "length y < length ts"
    using h by (fastforce simp: read_tag_into_def read_array_start_tag_def read_array_def sbind_eq_Inr Let_def
        split: if_splits option.splits prod.splits dest!: rt re)
  then show "((nents, le, compressed, x2, y), nents, le, compressed, tags, ts)
               \<in> measure (\<lambda>(_, _, _, _, ts). length ts)" by simp
qed simp

declare read_tags.simps [simp del]

text \<open>\<open>read_known_array<T>\<close>: an array whose name, type and width are fixed.\<close>

definition read_known_array ::
  "vtype \<Rightarrow> string \<Rightarrow> int \<Rightarrow> nat \<Rightarrow> bool \<Rightarrow> bool \<Rightarrow> vitem list \<Rightarrow> error + varray \<times> vitem list" where
  "read_known_array ty name nents ncomps le compressed ts =
     sbind (read_tag ts) (\<lambda>(st, ts).
     sbind (check (elem_name st = ''DataArray'') ''st.elem_name == DataArray'') (\<lambda>_.
     sbind (check (kind st = START) ''st.type == xml::Tag::START'') (\<lambda>_.
     sbind (check (attrib st ''Name'' = name) ''st.attribs[Name] == name'') (\<lambda>_.
     sbind (check (attrib st ''type'' = type_name ty) ''st.attribs[type] == Traits<T>::name()'') (\<lambda>_.
     sbind (check (attrib st ''NumberOfComponents'' = to_string (int ncomps))
                  ''st.attribs[NumberOfComponents] == to_string(ncomps)'') (\<lambda>_.
     sbind (read_array ty (nents * int ncomps) le compressed ts) (\<lambda>(a, ts).
     sbind (read_tag ts) (\<lambda>(et, ts).
     sbind (check (elem_name et = ''DataArray'') ''et.elem_name == DataArray'') (\<lambda>_.
     sbind (check (kind et = END) ''et.type == xml::Tag::END'') (\<lambda>_.
     Inr (a, ts)))))))))))"

section \<open>Reading a piece\<close>

text \<open>
  \<open>read_connectivity\<close> on one rank: the dimension comes from the first cell type
  (\<open>VTK_TRIANGLE\<close> or \<open>VTK_TETRA\<close>, \<open>-1\<close> otherwise or without cells), and the
  \<open>allreduce(dim, OMEGA_H_MAX)\<close> of a single rank is the identity.
\<close>

definition read_connectivity ::
  "int \<Rightarrow> bool \<Rightarrow> bool \<Rightarrow> vitem list \<Rightarrow> error + (int \<times> varray) \<times> vitem list" where
  "read_connectivity ncells le compressed ts =
     sbind (read_known_array OMEGA_H_I8 ''types'' ncells 1 le compressed ts) (\<lambda>(types, ts).
     (let dim = (case types of
                   AI8 (t # _) \<Rightarrow> if t = 5 then 2 else if t = 10 then 3 else -1
                 | _ \<Rightarrow> -1)
      in sbind (check (dim = 2 \<or> dim = 3) ''dim == 2 || dim == 3'') (\<lambda>_.
         sbind (read_known_array OMEGA_H_I32 ''connectivity'' (ncells * (dim + 1)) 1 le compressed ts)
           (\<lambda>(ev2v, ts).
         sbind (read_known_array OMEGA_H_I32 ''offsets'' ncells 1 le compressed ts) (\<lambda>(_, ts).
         Inr ((dim, ev2v), ts))))))"

text \<open>
  \<open>read_locals_and_owners(stream, comm, nents, ...)\<close>: the \<open>local\<close> array, and the
  \<open>owner\<close> array unless the communicator \<open>cs\<close> has one rank; both are read and dropped.
\<close>

definition read_locals :: "nat \<Rightarrow> int \<Rightarrow> bool \<Rightarrow> bool \<Rightarrow> vitem list \<Rightarrow> error + vitem list" where
  "read_locals cs nents le compressed ts =
     sbind (read_known_array OMEGA_H_I32 ''local'' nents 1 le compressed ts) (\<lambda>(_, ts).
     if cs = 1 then Inr ts
     else sbind (read_known_array OMEGA_H_I32 ''owner'' nents 1 le compressed ts) (\<lambda>(_, ts). Inr ts))"

text \<open>
  What \<open>read_vtu\<close> hands to the mesh: the arguments of
  \<open>build_from_elems2verts\<close> (dimension, cell vertices, vertex global numbers)
  and the tags it adds to the vertices and to the cells, in order.
\<close>

record vtu_mesh =
  rv_dim :: nat
  rv_nverts :: nat
  rv_ncells :: nat
  rv_ev2v :: varray
  rv_globals :: varray
  rv_vert_tags :: "vtag list"
  rv_cell_tags :: "vtag list"

text \<open>
  \<open>read_vtkfile_vtu_start_tag\<close>: the byte order and whether a compressor is
  named; \<open>read_piece_start_tag\<close>: the vertex and cell counts.
\<close>

definition read_vtkfile_vtu_start_tag :: "vitem list \<Rightarrow> error + (bool \<times> bool) \<times> vitem list" where
  "read_vtkfile_vtu_start_tag ts =
     sbind (read_tag ts) (\<lambda>(st, ts).
     sbind (check (elem_name st = ''VTKFile'') ''st.elem_name == VTKFile'') (\<lambda>_.
     sbind (check (attrib st ''header_type'' = ''UInt64'') ''st.attribs[header_type] == UInt64'') (\<lambda>_.
     Inr ((attrib st ''byte_order'' = ''LittleEndian'', ''compressor'' \<in> set (map fst (attribs st))), ts))))"

definition read_piece_start_tag :: "vitem list \<Rightarrow> error + (int \<times> int) \<times> vitem list" where
  "read_piece_start_tag ts =
     sbind (read_tag ts) (\<lambda>(st, ts).
     sbind (check (elem_name st = ''Piece'') ''st.elem_name == Piece'') (\<lambda>_.
     sbind (stoi (attrib st ''NumberOfPoints'')) (\<lambda>nverts.
     sbind (stoi (attrib st ''NumberOfCells'')) (\<lambda>ncells.
     Inr ((nverts, ncells), ts)))))"

text \<open>
  \<open>read_vtu(stream, comm, mesh)\<close> for a communicator of \<open>cs\<close> ranks: with one rank
  the vertex global numbers are \<open>0, 1, ...\<close>, with more they are the \<open>global\<close>
  array that follows the locals and owners.
\<close>

definition read_vtu :: "nat \<Rightarrow> vitem list \<Rightarrow> error + vtu_mesh" where
  "read_vtu cs ts0 =
     sbind (read_vtkfile_vtu_start_tag ts0) (\<lambda>((le, compressed), ts).
     sbind (expect_tag ''UnstructuredGrid'' ts) (\<lambda>ts.
     sbind (read_piece_start_tag ts) (\<lambda>((nverts, ncells), ts).
     sbind (expect_tag ''Cells'' ts) (\<lambda>ts.
     sbind (read_connectivity ncells le compressed ts) (\<lambda>((dim, ev2v), ts).
     sbind (expect_tag ''Cells'' ts) (\<lambda>ts.
     sbind (expect_tag ''Points'' ts) (\<lambda>ts.
     sbind (read_known_array OMEGA_H_F64 ''coordinates'' nverts 3 le compressed ts) (\<lambda>(coords, ts).
     (let coords = (case coords of AF64 xs \<Rightarrow> if dim = 2 then AF64 (vectors_3d_to_2d xs) else AF64 xs
                                 | a \<Rightarrow> a)
      in sbind (expect_tag ''Points'' ts) (\<lambda>ts.
         sbind (expect_tag ''PointData'' ts) (\<lambda>ts.
         sbind (read_locals cs nverts le compressed ts) (\<lambda>ts.
         sbind (if 1 < cs then read_known_array OMEGA_H_I64 ''global'' nverts 1 le compressed ts
                else Inr (AI64 (map word_of_nat [0..<nat nverts]), ts)) (\<lambda>(globals, ts).
         sbind (read_tags nverts le compressed
                  [\<lparr>tg_name = ''coordinates'', tg_ncomps = nat dim, tg_data = coords, tg_viz = True\<rparr>] ts)
           (\<lambda>(vtags, ts).
         sbind (expect_tag ''CellData'' ts) (\<lambda>ts.
         sbind (read_locals cs ncells le compressed ts) (\<lambda>ts.
         sbind (read_tags ncells le compressed [] ts) (\<lambda>(ctags, ts).
         sbind (expect_tag ''Piece'' ts) (\<lambda>ts.
         sbind (expect_tag ''UnstructuredGrid'' ts) (\<lambda>ts.
         sbind (expect_tag ''VTKFile'' ts) (\<lambda>ts.
         Inr \<lparr>rv_dim = nat dim, rv_nverts = nat nverts, rv_ncells = nat ncells, rv_ev2v = ev2v,
              rv_globals = globals, rv_vert_tags = vtags, rv_cell_tags = ctags\<rparr>))))))))))))))))))))"

section \<open>What a tag becomes in a file\<close>

text \<open>The name, width and array \<open>write_tag\<close> writes for a tag it does not skip.\<close>

definition written_tag :: "nat \<Rightarrow> vtag \<Rightarrow> string \<times> nat \<times> varray" where
  "written_tag space_dim t =
     (case tg_data t of
        AF64 xs \<Rightarrow> if space_dim = 2 \<and> tg_ncomps t = space_dim
                  then (tg_name t, 3, AF64 (vectors_2d_to_3d xs))
                  else (tg_name t, tg_ncomps t, AF64 xs)
      | a \<Rightarrow> (tg_name t, tg_ncomps t, a))"

text \<open>The tag \<open>read_tag\<close> adds for it, with \<open>OMEGA_H_DO_OUTPUT\<close> flags.\<close>

definition read_back_tag :: "nat \<Rightarrow> vtag \<Rightarrow> vtag" where
  "read_back_tag space_dim t =
     (case written_tag space_dim t of (name, nc, a) \<Rightarrow>
        \<lparr>tg_name = name, tg_ncomps = nc, tg_data = a, tg_viz = True\<rparr>)"

text \<open>A tag of \<open>n\<close> entities whose array holds \<open>ncomps\<close> values per entity.\<close>

definition tag_ok :: "nat \<Rightarrow> vtag \<Rightarrow> bool" where
  "tag_ok n t = (array_size (tg_data t) = n * tg_ncomps t \<and> tg_ncomps t < 2 ^ 31)"

section \<open>Well-formed meshes and what reading their file gives\<close>

text \<open>
  The part of a mesh on one rank whose file \<open>write_vtu\<close> can produce: a
  simplicial mesh with cells of dimension \<open>cd\<close>, counts that fit \<open>LO\<close>, cell
  vertex lists of the right length, a \<open>Float64\<close> coordinate field of \<open>dim\<close>
  components, an \<open>Int64\<close> \<open>global\<close> field if any, arrays whose sizes match
  their entity counts, and tag names distinct within each dimension. On more than
  one rank the owners of vertices and cells are given, and the \<open>global\<close>
  field exists as one component written to the file, since \<open>read_vtu\<close> then
  reads it right after the owners.
\<close>

definition vmesh_ok :: "vmesh \<Rightarrow> nat \<Rightarrow> bool" where
  "vmesh_ok m cd =
     ((vm_dim m = 2 \<or> vm_dim m = 3) \<and> (cd = 2 \<or> cd = 3) \<and> cd \<le> vm_dim m \<and> 0 < vm_comm_size m
      \<and> 0 < vm_nents m cd \<and> vm_nents m 0 < 2 ^ 31 \<and> vm_nents m cd < 2 ^ 31
      \<and> length (vm_verts_of m cd) = vm_nents m cd * (cd + 1)
      \<and> (case find_tag (vm_tags m 0) ''coordinates'' of
            None \<Rightarrow> False
          | Some c \<Rightarrow> tg_viz c \<and> tg_ncomps c = vm_dim m \<and> array_type (tg_data c) = OMEGA_H_F64)
      \<and> (case find_tag (vm_tags m 0) ''global'' of
            None \<Rightarrow> vm_comm_size m = 1
          | Some g \<Rightarrow> array_type (tg_data g) = OMEGA_H_I64 \<and> (vm_comm_size m = 1 \<or> tg_viz g \<and> tg_ncomps g = 1))
      \<and> (vm_comm_size m = 1 \<or> length (vm_owners m 0) = vm_nents m 0 \<and> length (vm_owners m cd) = vm_nents m cd)
      \<and> list_all (tag_ok (vm_nents m 0)) (vm_tags m 0) \<and> list_all (tag_ok (vm_nents m cd)) (vm_tags m cd)
      \<and> distinct (map tg_name (vm_tags m 0)) \<and> distinct (map tg_name (vm_tags m cd)))"

text \<open>
  The coordinates a reader gets back: written with three components, then cut to
  two when the cells are triangles.
\<close>

definition coords_back :: "vmesh \<Rightarrow> nat \<Rightarrow> varray" where
  "coords_back m cd =
     (case find_tag (vm_tags m 0) ''coordinates'' of
        None \<Rightarrow> AF64 []
      | Some c \<Rightarrow>
          (case tg_data c of
             AF64 xs \<Rightarrow> (let w = (if vm_dim m = 2 then vectors_2d_to_3d xs else xs)
                         in AF64 (if cd = 2 then vectors_3d_to_2d w else w))
           | a \<Rightarrow> a))"

definition vtu_of_mesh :: "vmesh \<Rightarrow> nat \<Rightarrow> vtu_mesh" where
  "vtu_of_mesh m cd =
     \<lparr>rv_dim = cd, rv_nverts = vm_nents m 0, rv_ncells = vm_nents m cd, rv_ev2v = AI32 (vm_verts_of m cd),
      rv_globals =
        (if 1 < vm_comm_size m
         then (case find_tag (vm_tags m 0) ''global'' of Some g \<Rightarrow> tg_data g | None \<Rightarrow> AI64 [])
         else AI64 (map word_of_nat [0..<vm_nents m 0])),
      rv_vert_tags =
        \<lparr>tg_name = ''coordinates'', tg_ncomps = cd, tg_data = coords_back m cd, tg_viz = True\<rparr>
        # map (read_back_tag (vm_dim m))
            (filter tg_viz ((if 1 < vm_comm_size m then [] else filter (\<lambda>t. tg_name t = ''global'') (vm_tags m 0))
                            @ filter (\<lambda>t. tg_name t \<noteq> ''coordinates'' \<and> tg_name t \<noteq> ''global'') (vm_tags m 0))),
      rv_cell_tags = map (read_back_tag (vm_dim m)) (filter tg_viz (vm_tags m cd))\<rparr>"

section \<open>Examples\<close>

text \<open>A mesh of one triangle with a two-component vertex field and a cell field.\<close>

definition tri_vmesh :: vmesh where
  "tri_vmesh =
     \<lparr>vm_dim = 2, vm_nents = (\<lambda>d. [3, 3, 1, 0] ! d), vm_verts_of = (\<lambda>d. if d = 2 then [0, 1, 2] else []),
      vm_tags = (\<lambda>d. if d = 0 then
                        [\<lparr>tg_name = ''coordinates'', tg_ncomps = 2, tg_data = AF64 [0, 0, 1, 0, 0, 1], tg_viz = True\<rparr>,
                         \<lparr>tg_name = ''velocity'', tg_ncomps = 2, tg_data = AF64 [1, 2, 3, 4, 5, 6], tg_viz = True\<rparr>]
                      else if d = 2 then
                        [\<lparr>tg_name = ''class_id'', tg_ncomps = 1, tg_data = AI32 [7], tg_viz = True\<rparr>]
                      else []),
      vm_owners = (\<lambda>_. []), vm_comm_size = 1\<rparr>"

text \<open>A tetrahedron with vertex global numbers, its four faces and a cell field.\<close>

definition tet_vmesh :: vmesh where
  "tet_vmesh =
     \<lparr>vm_dim = 3, vm_nents = (\<lambda>d. [4, 6, 4, 1] ! d),
      vm_verts_of = (\<lambda>d. if d = 3 then [0, 1, 2, 3]
                         else if d = 2 then [0, 1, 2, 0, 1, 3, 0, 2, 3, 1, 2, 3] else []),
      vm_tags = (\<lambda>d. if d = 0 then
                        [\<lparr>tg_name = ''coordinates'', tg_ncomps = 3,
                          tg_data = AF64 [0, 0, 0, 1, 0, 0, 0, 1, 0, 0, 0, 1], tg_viz = True\<rparr>,
                         \<lparr>tg_name = ''global'', tg_ncomps = 1, tg_data = AI64 [0, 1, 2, 3], tg_viz = True\<rparr>]
                      else if d = 3 then
                        [\<lparr>tg_name = ''class_id'', tg_ncomps = 1, tg_data = AI32 [7], tg_viz = True\<rparr>]
                      else []),
      vm_owners = (\<lambda>_. []), vm_comm_size = 1\<rparr>"

section \<open>Bytes: little-endian encoding and decoding\<close>

lemma length_le_bytes [simp]: "length (le_bytes n x) = n"
  by (induction n arbitrary: x) simp_all

lemma le_value_le_bytes: "le_value (le_bytes n x) = x mod 256 ^ n"
proof (induction n arbitrary: x)
  case 0
  then show ?case by simp
next
  case (Suc n)
  have "unat (word_of_nat x :: 8 word) = x mod 256" by (simp add: unat_of_nat)
  then show ?case using Suc by (simp add: mod_mult2_eq)
qed

lemma length_word_bytes [simp]: "length (word_bytes n w) = n"
  by (simp add: word_bytes_def)

lemma decode_word_bytes:
  fixes w :: "'a::len word"
  assumes "LENGTH('a) = 8 * k"
  shows "decode_value True (word_bytes k w) = w"
proof -
  have "(256::nat) ^ k = 2 ^ LENGTH('a)" by (simp add: assms power_mult)
  then have "unat w mod 256 ^ k = unat w" by simp
  then show ?thesis by (simp add: decode_value_def word_bytes_def le_value_le_bytes)
qed

lemma decode_word_bytes_rev:
  fixes w :: "'a::len word"
  assumes "LENGTH('a) = 8 * k"
  shows "decode_value False (rev (word_bytes k w)) = w"
  using decode_word_bytes [OF assms] by (simp add: decode_value_def)

lemma drop_concat_uniform:
  "\<forall>x\<in>set xs. length (f x) = k \<Longrightarrow> drop (i * k) (concat (map f xs)) = concat (map f (drop i xs))"
proof (induction xs arbitrary: i)
  case Nil
  then show ?case by simp
next
  case (Cons x xs)
  then show ?case by (cases i) (simp_all add: drop_append)
qed

lemma chunks_concat:
  assumes "\<forall>x\<in>set xs. length (f x) = k"
  shows "chunks k (length xs) (concat (map f xs) @ rest) = map f xs"
proof (rule nth_equalityI)
  show "length (chunks k (length xs) (concat (map f xs) @ rest)) = length (map f xs)"
    by (simp add: chunks_def)
next
  fix i assume "i < length (chunks k (length xs) (concat (map f xs) @ rest))"
  then have i: "i < length xs" by (simp add: chunks_def)
  have l: "length (concat (map f xs)) = k * length xs"
    using assms by (induction xs) auto
  have "i * k \<le> length (concat (map f xs))" using i l by (simp add: mult.commute)
  then have "drop (i * k) (concat (map f xs) @ rest) = concat (map f (drop i xs)) @ rest"
    using drop_concat_uniform [OF assms, of i] by simp
  moreover have "drop i xs = xs ! i # drop (Suc i) xs" using i by (simp add: Cons_nth_drop_Suc)
  ultimately have d: "drop (i * k) (concat (map f xs) @ rest) = f (xs ! i) @ (concat (map f (drop (Suc i) xs)) @ rest)"
    by simp
  have lk: "length (f (xs ! i)) = k" using i assms by simp
  have t: "take k (drop (i * k) (concat (map f xs) @ rest)) = f (xs ! i)"
    unfolding d using lk by simp
  have "chunks k (length xs) (concat (map f xs) @ rest) ! i = take k (drop (i * k) (concat (map f xs) @ rest))"
    unfolding chunks_def using i by (simp only: nth_map length_upt nth_upt) simp
  then show "chunks k (length xs) (concat (map f xs) @ rest) ! i = map f xs ! i"
    using t i by simp
qed

lemma decode_array_bytes:
  "decode_array (array_type a) True (array_size a) (array_bytes a @ rest) = a"
  by (cases a) (simp_all add: chunks_concat decode_word_bytes comp_def)

lemma length_array_bytes:
  "length (array_bytes a) = type_size (array_type a) * array_size a"
  by (cases a) (simp_all add: length_concat comp_def sum_list_triv)

section \<open>Decimal text: \<open>to_string\<close> and \<open>std::stoi\<close>\<close>

lemma nat_digits_digits: "\<forall>c\<in>set (nat_digits n). is_digit c"
  by (induction n rule: nat_digits.induct) (subst nat_digits.simps; auto simp: is_digit_def)

lemma nat_digits_nonempty: "nat_digits n \<noteq> []"
  by (subst nat_digits.simps) simp

lemma digits_value_nat_digits:
  "digits_value acc (nat_digits n) = acc * 10 ^ length (nat_digits n) + n"
proof (induction n arbitrary: acc rule: nat_digits.induct)
  case (1 n)
  show ?case
  proof (cases "n < 10")
    case True
    then have "nat_digits n = [char_of (48 + n)]" by (subst nat_digits.simps) simp
    moreover have "(of_char (char_of (48 + n)) :: nat) = 48 + n" using True by (simp add: of_char_of)
    ultimately show ?thesis by simp
  next
    case False
    then have "nat_digits n = nat_digits (n div 10) @ [char_of (48 + n mod 10)]"
      by (subst nat_digits.simps) simp
    moreover have "digits_value acc (xs @ [c]) = 10 * digits_value acc xs + (of_char c - 48)" for xs c
      by (induction xs arbitrary: acc) simp_all
    moreover have "(of_char (char_of (48 + n mod 10)) :: nat) = 48 + n mod 10"
      by (simp add: of_char_of)
    ultimately show ?thesis using 1 [OF False] by (simp add: algebra_simps)
  qed
qed

lemma takeWhile_all: "\<forall>c\<in>set xs. P c \<Longrightarrow> takeWhile P xs = xs"
  by (induction xs) simp_all

lemma stoi_nat_digits:
  "\<not> is_space (hd (nat_digits n)) \<and> hd (nat_digits n) \<noteq> CHR ''-'' \<and> hd (nat_digits n) \<noteq> CHR ''+''"
proof -
  have "is_digit (hd (nat_digits n))"
    using nat_digits_digits [of n] nat_digits_nonempty [of n] by (cases "nat_digits n") auto
  then show ?thesis by (auto simp: is_digit_def is_space_def)
qed

lemma stoi_to_string:
  assumes "- (2 ^ 31) \<le> i" and "i < 2 ^ 31"
  shows "stoi (to_string i) = Inr i"
proof (cases "i < 0")
  case True
  have "dropWhile is_space (''-'' @ nat_digits (nat (- i))) = ''-'' @ nat_digits (nat (- i))"
    by (simp add: is_space_def)
  then show ?thesis using True assms nat_digits_digits [of "nat (- i)"] nat_digits_nonempty [of "nat (- i)"]
    by (simp add: stoi_def to_string_def takeWhile_all digits_value_nat_digits Let_def)
next
  case False
  have ne: "nat_digits (nat i) \<noteq> []" by (rule nat_digits_nonempty)
  have h: "\<not> is_space (hd (nat_digits (nat i)))" "hd (nat_digits (nat i)) \<noteq> CHR ''-''"
    "hd (nat_digits (nat i)) \<noteq> CHR ''+''"
    using stoi_nat_digits [of "nat i"] by simp_all
  have dw: "dropWhile is_space (nat_digits (nat i)) = nat_digits (nat i)"
    using ne h(1) by (cases "nat_digits (nat i)") simp_all
  show ?thesis using False assms nat_digits_digits [of "nat i"] ne h dw
    by (simp add: stoi_def to_string_def takeWhile_all digits_value_nat_digits Let_def)
qed

section \<open>Reading back one data array\<close>

lemma read_array_write:
  "read_array (array_type a) (int (array_size a)) True False
     (XText (le_bytes 8 (type_size (array_type a) * array_size a) @ array_bytes a) # rest) = Inr (a, rest)"
proof -
  let ?x = "type_size (array_type a) * array_size a"
  have v: "unat (decode_value True (le_bytes 8 ?x) :: 64 word) = ?x mod 2 ^ 64"
    by (simp add: decode_value_def le_value_le_bytes unat_of_nat)
  have c: "int (?x mod 2 ^ 64) = (int (array_size a) * int (type_size (array_type a))) mod 2 ^ 64"
    by (simp add: zmod_int mult.commute)
  have l: "?x mod 2 ^ 64 \<le> length (array_bytes a)"
    by (simp add: length_array_bytes)
  show ?thesis
    using v c l decode_array_bytes [of a "[]"]
    by (simp add: read_array_def check_def not_less)
qed

lemma type_of_name:
  "(if type_name t = ''Int8'' then OMEGA_H_I8 else if type_name t = ''Int32'' then OMEGA_H_I32
    else if type_name t = ''Int64'' then OMEGA_H_I64 else if type_name t = ''Float64'' then OMEGA_H_F64
    else d) = t"
  by (cases t) simp_all

lemma read_array_start_tag_write:
  assumes "nc < 2 ^ 31"
  shows "read_array_start_tag d (write_array name nc a @ rest)
         = Inr (Some (array_type a, name, int nc),
                XText (le_bytes 8 (type_size (array_type a) * array_size a) @ array_bytes a)
                # end_tag ''DataArray'' # rest)"
proof -
  have "stoi (to_string (int nc)) = Inr (int nc)" using assms by (intro stoi_to_string) simp_all
  then show ?thesis
    by (simp add: read_array_start_tag_def write_array_def start_tag_def describe_array_def attrib_def
        type_of_name check_def)
qed

lemma read_tag_into_write:
  assumes "nc < 2 ^ 31" and "array_size a = n * nc"
  shows "read_tag_into (int n) True False tags (write_array name nc a @ rest)
         = Inr (Some (filter (\<lambda>t. tg_name t \<noteq> name) tags
                      @ [\<lparr>tg_name = name, tg_ncomps = nc, tg_data = a, tg_viz = True\<rparr>]), rest)"
proof -
  have "int n * int nc = int (array_size a)" using assms(2) by simp
  then show ?thesis
    using read_array_write [of a "end_tag ''DataArray'' # rest"]
    by (simp add: read_tag_into_def read_array_start_tag_write [OF assms(1)] end_tag_def check_def)
qed

lemma read_tag_into_end:
  "read_tag_into n le c tags (end_tag name # rest) = Inr (None, rest)"
  by (simp add: read_tag_into_def read_array_start_tag_def end_tag_def check_def)

section \<open>Reading back the tag lists\<close>

lemma write_tag_written:
  "write_tag t d = (if tg_viz t then (case written_tag d t of (n, c, a) \<Rightarrow> write_array n c a) else [])"
  by (cases "tg_data t") (auto simp: write_tag_def written_tag_def)

lemma length_vectors_2d_to_3d: "length (vectors_2d_to_3d xs) = 3 * (length xs div 2)"
  by (induction xs rule: vectors_2d_to_3d.induct) simp_all

lemma vectors_3d_2d_3d: "even (length xs) \<Longrightarrow> vectors_3d_to_2d (vectors_2d_to_3d xs) = xs"
  by (induction xs rule: vectors_2d_to_3d.induct) simp_all

lemma written_tag_cases:
  "written_tag d t = (name, c, a) \<Longrightarrow>
   name = tg_name t \<and> ((a = tg_data t \<and> c = tg_ncomps t)
     \<or> (\<exists>xs. tg_data t = AF64 xs \<and> d = 2 \<and> tg_ncomps t = 2 \<and> c = 3 \<and> a = AF64 (vectors_2d_to_3d xs)))"
  by (cases "tg_data t") (auto simp: written_tag_def split: if_splits)

lemma written_tag_ok:
  assumes "tag_ok n t" and "written_tag d t = (name, c, a)"
  shows "c < 2 ^ 31 \<and> array_size a = n * c \<and> name = tg_name t"
  using written_tag_cases [OF assms(2)] assms(1)
  by (auto simp: tag_ok_def length_vectors_2d_to_3d)

lemma read_back_name [simp]: "tg_name (read_back_tag d t) = tg_name t"
  by (simp add: read_back_tag_def written_tag_def split: varray.splits)

lemma read_tags_step:
  "read_tag_into n le c tags ts = Inr (Some tags', ts') \<Longrightarrow> read_tags n le c tags ts = read_tags n le c tags' ts'"
  by (subst read_tags.simps) simp

lemma read_tags_end:
  "read_tag_into n le c tags ts = Inr (None, ts') \<Longrightarrow> read_tags n le c tags ts = Inr (tags, ts')"
  by (subst read_tags.simps) simp

lemma read_tags_written:
  assumes "\<forall>t\<in>set ts. tag_ok n t"
    and "distinct (map tg_name (filter tg_viz ts))"
    and "\<forall>t\<in>set ts. tg_viz t \<longrightarrow> tg_name t \<notin> tg_name ` set tags0"
  shows "read_tags (int n) True False tags0 (concat (map (\<lambda>t. write_tag t d) ts) @ end_tag x # rest)
         = Inr (tags0 @ map (read_back_tag d) (filter tg_viz ts), rest)"
  using assms
proof (induction ts arbitrary: tags0)
  case Nil
  then show ?case by (simp add: read_tags_end read_tag_into_end)
next
  case (Cons t ts)
  show ?case
  proof (cases "tg_viz t")
    case False
    with Cons show ?thesis by (simp add: write_tag_written)
  next
    case True
    obtain name c a where w: "written_tag d t = (name, c, a)" by (cases "written_tag d t") auto
    from written_tag_ok [OF _ w] Cons.prems(1)
    have ok: "c < 2 ^ 31" "array_size a = n * c" "name = tg_name t" by auto
    have "tg_name t \<notin> tg_name ` set tags0" using Cons.prems(3) True by simp
    then have "\<forall>u\<in>set tags0. tg_name u \<noteq> name" using ok(3) by (metis image_eqI)
    then have nf: "filter (\<lambda>u. tg_name u \<noteq> name) tags0 = tags0" by (simp add: filter_id_conv)
    have rb: "read_back_tag d t = \<lparr>tg_name = name, tg_ncomps = c, tg_data = a, tg_viz = True\<rparr>"
      by (simp add: read_back_tag_def w)
    let ?tags1 = "tags0 @ [read_back_tag d t]"
    have step: "read_tag_into (int n) True False tags0
                  (write_array name c a @ concat (map (\<lambda>t. write_tag t d) ts) @ end_tag x # rest)
                = Inr (Some ?tags1, concat (map (\<lambda>t. write_tag t d) ts) @ end_tag x # rest)"
      using read_tag_into_write [OF ok(1,2)] nf rb by simp
    have "\<forall>u\<in>set ts. tg_viz u \<longrightarrow> tg_name u \<noteq> tg_name t"
      using Cons.prems(2) True by (auto simp: image_iff)
    then have "\<forall>u\<in>set ts. tg_viz u \<longrightarrow> tg_name u \<notin> tg_name ` set ?tags1"
      using Cons.prems(3) by auto
    moreover have "\<forall>t\<in>set ts. tag_ok n t" "distinct (map tg_name (filter tg_viz ts))"
      using Cons.prems(1,2) True by simp_all
    ultimately have ih: "read_tags (int n) True False ?tags1 (concat (map (\<lambda>t. write_tag t d) ts) @ end_tag x # rest)
              = Inr (?tags1 @ map (read_back_tag d) (filter tg_viz ts), rest)"
      using Cons.IH [of ?tags1] by blast
    show ?thesis
      using read_tags_step [OF step] ih True w by (simp add: write_tag_written)
  qed
qed

lemma read_known_array_write:
  assumes "array_size a = n * nc" and "ty = array_type a"
  shows "read_known_array ty name (int n) nc True False (write_array name nc a @ rest) = Inr (a, rest)"
proof -
  have "int n * int nc = int (array_size a)" using assms(1) by simp
  then show ?thesis
    using read_array_write [of a "end_tag ''DataArray'' # rest"] assms(2)
    by (simp add: read_known_array_def write_array_def start_tag_def end_tag_def describe_array_def
        attrib_def check_def)
qed

section \<open>Reading back the cells and the piece structure\<close>

lemma read_connectivity_write:
  assumes "cd = 2 \<or> cd = 3" and "0 < vm_nents m cd"
    and "length (vm_verts_of m cd) = vm_nents m cd * (cd + 1)"
  shows "read_connectivity (int (vm_nents m cd)) True False (write_connectivity m cd @ rest)
         = Inr ((int cd, AI32 (vm_verts_of m cd)), rest)"
proof -
  obtain k where k: "vm_nents m cd = Suc k" using assms(2) by (cases "vm_nents m cd") auto
  have rep: "replicate (vm_nents m cd) (vtk_type cd) = vtk_type cd # replicate k (vtk_type cd)"
    by (simp add: k)
  have dim: "(if vtk_type cd = 5 then 2 else if vtk_type cd = 10 then 3 else - 1) = (int cd)"
    using assms(1) by (auto simp: vtk_type_def)
  have conn: "read_known_array OMEGA_H_I32 ''connectivity'' (int (vm_nents m cd) * (int cd + 1)) 1 True False
                (write_array ''connectivity'' 1 (AI32 (vm_verts_of m cd)) @ r)
              = Inr (AI32 (vm_verts_of m cd), r)" for r
  proof -
    have "int (vm_nents m cd) * (int cd + 1) = int (vm_nents m cd * (cd + 1))"
      by (simp add: algebra_simps)
    then show ?thesis using read_known_array_write [of "AI32 (vm_verts_of m cd)" "vm_nents m cd * (cd + 1)" 1]
      assms(3) by simp
  qed
  have offs: "read_known_array OMEGA_H_I32 ''offsets'' (int (vm_nents m cd)) 1 True False
                (write_array ''offsets'' 1 (AI32 (map (\<lambda>i. word_of_nat (cd + 1 + i * (cd + 1))) [0..<vm_nents m cd])) @ rest)
              = Inr (AI32 (map (\<lambda>i. word_of_nat (cd + 1 + i * (cd + 1))) [0..<vm_nents m cd]), rest)"
    by (rule read_known_array_write) simp_all
  have typs: "read_known_array OMEGA_H_I8 ''types'' (int (vm_nents m cd)) 1 True False
                (write_array ''types'' 1 (AI8 (replicate (vm_nents m cd) (vtk_type cd))) @ r)
              = Inr (AI8 (replicate (vm_nents m cd) (vtk_type cd)), r)" for r
    by (rule read_known_array_write) simp_all
  have chk: "check (int cd = 2 \<or> int cd = 3) ''dim == 2 || dim == 3'' = Inr ()"
    using assms(1) by (auto simp: check_def)
  show ?thesis
    unfolding write_connectivity_def Let_def read_connectivity_def append_assoc typs
    by (simp only: rep varray.case list.case dim chk sbind_Inr conn offs prod.case)
qed

lemma find_tag_filter_Some:
  "distinct (map tg_name ts) \<Longrightarrow> find_tag ts nm = Some g \<Longrightarrow> filter (\<lambda>t. tg_name t = nm) ts = [g]"
proof (induction ts)
  case (Cons t ts)
  then show ?case
    by (auto simp: find_tag_def filter_empty_conv dest!: find_Some_iff [THEN iffD1]
        split: if_splits) (metis image_eqI nth_mem)
qed (simp add: find_tag_def)

lemma find_tag_filter_None: "find_tag ts nm = None \<Longrightarrow> filter (\<lambda>t. tg_name t = nm) ts = []"
  by (simp add: find_tag_def find_None_iff filter_empty_conv)

lemma read_locals_write:
  "vm_comm_size m = 1 \<or> length (vm_owners m d) = vm_nents m d \<Longrightarrow>
   read_locals (vm_comm_size m) (int (vm_nents m d)) True False (write_locals_and_owners m d @ rest) = Inr rest"
  by (auto simp: read_locals_def write_locals_and_owners_def read_known_array_write)

lemma expect_start_tag [simp]: "expect_tag nm (start_tag nm a # rest) = Inr rest"
  by (simp add: expect_tag_def start_tag_def check_def)

lemma expect_end_tag [simp]: "expect_tag nm (end_tag nm # rest) = Inr rest"
  by (simp add: expect_tag_def end_tag_def check_def)

lemma read_start_tag [simp]:
  "read_tag (start_tag nm a # rest) = Inr (\<lparr>elem_name = nm, kind = START, attribs = a\<rparr>, rest)"
  by (simp add: start_tag_def)

section \<open>Reading back a whole file\<close>

lemma read_write_vtu:
  assumes ok: "vmesh_ok m cd"
  shows "sbind (write_vtu m cd) (read_vtu (vm_comm_size m)) = Inr (vtu_of_mesh m cd)"
proof -
  let ?n0 = "vm_nents m 0" and ?nc = "vm_nents m cd" and ?d = "vm_dim m"
  let ?G = "filter (\<lambda>t. tg_name t = ''global'') (vm_tags m 0)"
  let ?O = "filter (\<lambda>t. tg_name t \<noteq> ''coordinates'' \<and> tg_name t \<noteq> ''global'') (vm_tags m 0)"
  have cd: "cd = 2 \<or> cd = 3" and d: "?d = 2 \<or> ?d = 3" and cs: "0 < vm_comm_size m"
    and n0: "?n0 < 2 ^ 31" and nc: "?nc < 2 ^ 31" and pos: "0 < ?nc"
    and len: "length (vm_verts_of m cd) = ?nc * (cd + 1)"
    and ok0: "list_all (tag_ok ?n0) (vm_tags m 0)" and okc: "list_all (tag_ok ?nc) (vm_tags m cd)"
    and dist0: "distinct (map tg_name (vm_tags m 0))" and distc: "distinct (map tg_name (vm_tags m cd))"
    using ok by (simp_all add: vmesh_ok_def)
  obtain c where fc: "find_tag (vm_tags m 0) ''coordinates'' = Some c" and cv: "tg_viz c"
    and cn: "tg_ncomps c = ?d" and ct: "array_type (tg_data c) = OMEGA_H_F64"
    using ok by (auto simp: vmesh_ok_def split: option.splits)
  obtain xs where cx: "tg_data c = AF64 xs" using ct by (cases "tg_data c") auto
  have "c \<in> set (vm_tags m 0)" using fc by (auto simp: find_tag_def find_Some_iff)
  then have "tag_ok ?n0 c" using ok0 by (simp add: list_all_iff)
  then have lx: "length xs = ?n0 * ?d" using cx cn by (simp add: tag_ok_def)
  define w where "w = (if ?d = 2 then vectors_2d_to_3d xs else xs)"
  have cw: "write_tag c ?d = write_array ''coordinates'' 3 (AF64 w)"
    using fc cv cn cx d by (auto simp: write_tag_written written_tag_def w_def find_tag_def find_Some_iff)
  have lw: "length w = ?n0 * 3"
    using lx d by (auto simp: w_def length_vectors_2d_to_3d)
  have cr: "read_known_array OMEGA_H_F64 ''coordinates'' (int ?n0) 3 True False
              (write_array ''coordinates'' 3 (AF64 w) @ r) = Inr (AF64 w, r)" for r
    by (rule read_known_array_write) (simp_all add: lw)
  have glob: "(case find_tag (vm_tags m 0) ''global'' of
                 None \<Rightarrow> Inr []
               | Some _ \<Rightarrow> sbind (get_tag m 0 ''global'' OMEGA_H_I64) (\<lambda>g. Inr (write_tag g ?d)))
              = (Inr (concat (map (\<lambda>t. write_tag t ?d) ?G)) :: error + vitem list)"
  proof (cases "find_tag (vm_tags m 0) ''global''")
    case None
    then show ?thesis by (simp add: find_tag_filter_None)
  next
    case (Some g)
    then have "array_type (tg_data g) = OMEGA_H_I64" using ok by (simp add: vmesh_ok_def)
    then show ?thesis using Some find_tag_filter_Some [OF dist0 Some] by (simp add: get_tag_def)
  qed
  have okGO: "\<forall>t\<in>set (?G @ ?O). tag_ok ?n0 t" using ok0 by (auto simp: list_all_iff)
  have dGO: "distinct (map tg_name (filter tg_viz (?G @ ?O)))"
  proof -
    have "distinct (map tg_name ?G)" "distinct (map tg_name ?O)"
      using dist0 by (simp_all add: distinct_map_filter)
    moreover have "set (map tg_name ?G) \<inter> set (map tg_name ?O) = {}" by auto
    ultimately have "distinct (map tg_name (?G @ ?O))" by simp
    then show ?thesis by (rule distinct_map_filter)
  qed
  have vt: "read_tags (int ?n0) True False [ctag]
              (concat (map (\<lambda>t. write_tag t ?d) ?G) @ concat (map (\<lambda>t. write_tag t ?d) ?O)
               @ end_tag ''PointData'' # r)
            = Inr ([ctag] @ map (read_back_tag ?d) (filter tg_viz (?G @ ?O)), r)"
    if "tg_name ctag = ''coordinates''" for ctag r
  proof -
    have "\<forall>t\<in>set (?G @ ?O). tg_viz t \<longrightarrow> tg_name t \<notin> tg_name ` set [ctag]"
      using that by auto
    from read_tags_written [OF okGO dGO this, of ?d "''PointData''" r]
    show ?thesis by simp
  qed
  have okC: "\<forall>t\<in>set (vm_tags m cd). tag_ok ?nc t" using okc by (simp add: list_all_iff)
  have dC: "distinct (map tg_name (filter tg_viz (vm_tags m cd)))"
    using distc by (rule distinct_map_filter)
  have ct': "read_tags (int ?nc) True False []
              (concat (map (\<lambda>t. write_tag t ?d) (vm_tags m cd)) @ end_tag ''CellData'' # r)
            = Inr (map (read_back_tag ?d) (filter tg_viz (vm_tags m cd)), r)" for r
    using read_tags_written [OF okC dC, of "[]" ?d "''CellData''" r] by simp
  have gc: "get_tag m 0 ''coordinates'' OMEGA_H_F64 = Inr c" by (simp add: get_tag_def fc ct)
  have s0: "stoi (to_string (int ?n0)) = Inr (int ?n0)" using n0 by (intro stoi_to_string) auto
  have sc: "stoi (to_string (int ?nc)) = Inr (int ?nc)" using nc by (intro stoi_to_string) auto
  have rc: "read_connectivity (int ?nc) True False (write_connectivity m cd @ r)
              = Inr ((int cd, AI32 (vm_verts_of m cd)), r)" for r
    using read_connectivity_write [OF cd pos len] .
  have ow: "vm_comm_size m = 1 \<or> length (vm_owners m 0) = ?n0 \<and> length (vm_owners m cd) = ?nc"
    using ok by (simp add: vmesh_ok_def)
  have rl0: "read_locals (vm_comm_size m) (int ?n0) True False (write_locals_and_owners m 0 @ r) = Inr r"
    and rlc: "read_locals (vm_comm_size m) (int ?nc) True False (write_locals_and_owners m cd @ r) = Inr r" for r
    using read_locals_write [of m 0] read_locals_write [of m cd] ow by auto
  have cb: "coords_back m cd = AF64 (if cd = 2 then vectors_3d_to_2d w else w)"
    by (simp add: coords_back_def fc cx w_def)
  note defs = write_vtkfile_vtu_start_tag_def write_piece_start_tag_def read_vtkfile_vtu_start_tag_def
    read_piece_start_tag_def attrib_def check_def Let_def vtu_of_mesh_def
  show ?thesis
  proof (cases "1 < vm_comm_size m")
    case False
    then show ?thesis
      unfolding write_vtu_def gc glob sbind_Inr read_vtu_def
      by (simp add: cw cr s0 sc rc rl0 rlc vt ct' cb defs)
  next
    case True
    obtain g where fg: "find_tag (vm_tags m 0) ''global'' = Some g" and gv: "tg_viz g" and gn: "tg_ncomps g = 1"
      and gt: "array_type (tg_data g) = OMEGA_H_I64"
      using ok True by (auto simp: vmesh_ok_def split: option.splits)
    have G: "?G = [g]" using find_tag_filter_Some [OF dist0 fg] .
    have "g \<in> set (vm_tags m 0)" using fg by (auto simp: find_tag_def find_Some_iff)
    then have gs: "array_size (tg_data g) = ?n0 * 1" using ok0 gn by (simp add: list_all_iff tag_ok_def)
    have wg: "write_tag g ?d = write_array ''global'' 1 (tg_data g)"
      using gv gn gt fg by (cases "tg_data g") (auto simp: write_tag_def find_tag_def find_Some_iff)
    have rg: "read_known_array OMEGA_H_I64 ''global'' (int ?n0) 1 True False (write_tag g ?d @ r)
                = Inr (tg_data g, r)" for r
      unfolding wg by (rule read_known_array_write [OF gs gt [symmetric]])
    have okO: "\<forall>t\<in>set ?O. tag_ok ?n0 t" using ok0 by (auto simp: list_all_iff)
    have dO: "distinct (map tg_name (filter tg_viz ?O))"
      using dist0 by (simp add: distinct_map_filter)
    have vO: "read_tags (int ?n0) True False [ctag] (concat (map (\<lambda>t. write_tag t ?d) ?O) @ end_tag ''PointData'' # r)
              = Inr ([ctag] @ map (read_back_tag ?d) (filter tg_viz ?O), r)"
      if "tg_name ctag = ''coordinates''" for ctag r
      using read_tags_written [OF okO dO, of "[ctag]" ?d "''PointData''" r] that by auto
    show ?thesis
      unfolding write_vtu_def gc glob sbind_Inr read_vtu_def G
      using True by (simp add: cw cr s0 sc rc rl0 rlc rg rg [unfolded One_nat_def] vO ct' cb fg defs)
  qed
qed

section \<open>Looking up the fields read back\<close>

lemma find_tag_distinct:
  "distinct (map tg_name ts) \<Longrightarrow> t \<in> set ts \<Longrightarrow> find_tag ts (tg_name t) = Some t"
  by (induction ts) (auto simp: find_tag_def)

lemma find_tag_read_back:
  assumes "distinct (map tg_name ts)" and "t \<in> set ts" and "tg_viz t"
  shows "find_tag (map (read_back_tag d) (filter tg_viz ts)) (tg_name t) = Some (read_back_tag d t)"
proof -
  have "distinct (map tg_name (map (read_back_tag d) (filter tg_viz ts)))"
    using distinct_map_filter [OF assms(1), of tg_viz] by (simp add: comp_def)
  moreover have "read_back_tag d t \<in> set (map (read_back_tag d) (filter tg_viz ts))"
    using assms(2,3) by simp
  ultimately show ?thesis using find_tag_distinct by fastforce
qed

lemma read_back_tag_same:
  "tg_viz t \<Longrightarrow> \<not> (d = 2 \<and> tg_ncomps t = 2 \<and> array_type (tg_data t) = OMEGA_H_F64) \<Longrightarrow> read_back_tag d t = t"
  by (cases "tg_data t") (auto simp: read_back_tag_def written_tag_def)

lemma read_back_tag_widened:
  "tg_data t = AF64 xs \<Longrightarrow> tg_ncomps t = 2 \<Longrightarrow>
   read_back_tag 2 t = \<lparr>tg_name = tg_name t, tg_ncomps = 3, tg_data = AF64 (vectors_2d_to_3d xs), tg_viz = True\<rparr>"
  by (simp add: read_back_tag_def written_tag_def)

lemma vmesh_ok_coords:
  assumes "vmesh_ok m cd" and "find_tag (vm_tags m 0) ''coordinates'' = Some c"
  obtains xs where "tg_data c = AF64 xs" and "length xs = vm_nents m 0 * vm_dim m"
    and "tg_viz c" and "tg_ncomps c = vm_dim m" and "c \<in> set (vm_tags m 0)"
proof -
  have c: "c \<in> set (vm_tags m 0)" using assms(2) by (auto simp: find_tag_def find_Some_iff)
  have "tag_ok (vm_nents m 0) c" using c assms(1) by (simp add: vmesh_ok_def list_all_iff)
  moreover have "tg_viz c" "tg_ncomps c = vm_dim m" "array_type (tg_data c) = OMEGA_H_F64"
    using assms by (simp_all add: vmesh_ok_def)
  ultimately show ?thesis using that c by (cases "tg_data c") (auto simp: tag_ok_def)
qed

text \<open>
  A vertex field other than the coordinates is found among the tags read back,
  unless it is the \<open>global\<close> field of a piece of several ranks, which
  \<open>read_vtu\<close> takes as the global numbers instead.
\<close>

lemma vtu_vert_tags_find:
  assumes "vmesh_ok m cd" and "t \<in> set (vm_tags m 0)" and "tg_viz t" and "tg_name t \<noteq> ''coordinates''"
    and "vm_comm_size m = 1 \<or> tg_name t \<noteq> ''global''"
  shows "find_tag (rv_vert_tags (vtu_of_mesh m cd)) (tg_name t) = Some (read_back_tag (vm_dim m) t)"
proof -
  let ?G = "if 1 < vm_comm_size m then [] else filter (\<lambda>t. tg_name t = ''global'') (vm_tags m 0)"
  let ?O = "filter (\<lambda>t. tg_name t \<noteq> ''coordinates'' \<and> tg_name t \<noteq> ''global'') (vm_tags m 0)"
  have d0: "distinct (map tg_name (vm_tags m 0))" using assms(1) by (simp add: vmesh_ok_def)
  have "distinct (map tg_name ?G)" "distinct (map tg_name ?O)"
    using d0 by (simp_all add: distinct_map_filter)
  moreover have "set (map tg_name ?G) \<inter> set (map tg_name ?O) = {}" by auto
  ultimately have "distinct (map tg_name (?G @ ?O))" by simp
  moreover have "t \<in> set (?G @ ?O)" using assms(2,4,5) by auto
  ultimately show ?thesis
    using find_tag_read_back [of "?G @ ?O" t "vm_dim m"] assms(3,4)
    by (simp add: vtu_of_mesh_def find_tag_def)
qed

lemma vmesh_ok_global_type:
  assumes "vmesh_ok m cd" and "t \<in> set (vm_tags m 0)" and "tg_name t = ''global''"
  shows "array_type (tg_data t) = OMEGA_H_I64"
proof -
  have "find_tag (vm_tags m 0) ''global'' = Some t"
    using find_tag_distinct [of "vm_tags m 0" t] assms by (simp add: vmesh_ok_def)
  then show ?thesis using assms(1) by (simp add: vmesh_ok_def)
qed

section \<open>Properties of the VTK round trip\<close>

lemma read_connectivity_low:
  assumes "cd < 2"
  shows "read_connectivity (int (vm_nents m cd)) True False (write_connectivity m cd @ r)
         = Inl (Check_failed ''dim == 2 || dim == 3'')"
proof -
  have typs: "read_known_array OMEGA_H_I8 ''types'' (int (vm_nents m cd)) 1 True False
                (write_array ''types'' 1 (AI8 (replicate (vm_nents m cd) (vtk_type cd))) @ r')
              = Inr (AI8 (replicate (vm_nents m cd) (vtk_type cd)), r')" for r'
    by (rule read_known_array_write) simp_all
  have v: "vtk_type cd \<noteq> 5 \<and> vtk_type cd \<noteq> 10" using assms
    by (auto simp: vtk_type_def less_2_cases_iff)
  have dim: "(case AI8 (replicate (vm_nents m cd) (vtk_type cd)) of
                AI8 (t # _) \<Rightarrow> if t = 5 then 2 else if t = 10 then 3 else - 1 | _ \<Rightarrow> - 1) = (- 1 :: int)"
    using v by (cases "vm_nents m cd") simp_all
  show ?thesis
    unfolding write_connectivity_def Let_def read_connectivity_def append_assoc typs
    by (simp only: sbind_Inr prod.case dim) (simp add: check_def)
qed

text \<open>
  C21: a well-formed one-rank mesh written with \<open>write_vtu\<close> at its own
  dimension is read back by \<open>read_vtu\<close> with its dimension, counts, cell
  vertices and coordinates unchanged, and with every output field that is not a
  two-component real field of a 2D mesh found under its name, unchanged.
\<close>

theorem vtu_roundtrip:
  assumes "vmesh_ok m (vm_dim m)" and "find_tag (vm_tags m 0) ''coordinates'' = Some c"
  shows "\<exists>ts r. write_vtu m (vm_dim m) = Inr ts \<and> read_vtu (vm_comm_size m) ts = Inr r
           \<and> rv_dim r = vm_dim m \<and> rv_nverts r = vm_nents m 0 \<and> rv_ncells r = vm_nents m (vm_dim m)
           \<and> rv_ev2v r = AI32 (vm_verts_of m (vm_dim m))
           \<and> (vm_comm_size m = 1 \<longrightarrow> rv_globals r = AI64 (map word_of_nat [0..<vm_nents m 0]))
           \<and> (\<forall>g. 1 < vm_comm_size m \<and> find_tag (vm_tags m 0) ''global'' = Some g \<longrightarrow> rv_globals r = tg_data g)
           \<and> find_tag (rv_vert_tags r) ''coordinates'' = Some c
           \<and> (\<forall>t\<in>set (vm_tags m 0). tg_viz t \<and> tg_name t \<noteq> ''coordinates''
                \<and> (vm_comm_size m = 1 \<or> tg_name t \<noteq> ''global'') \<and> \<not> (vm_dim m = 2 \<and> tg_ncomps t = 2 \<and> array_type (tg_data t) = OMEGA_H_F64)
                \<longrightarrow> find_tag (rv_vert_tags r) (tg_name t) = Some t)
           \<and> (\<forall>t\<in>set (vm_tags m (vm_dim m)). tg_viz t
                \<and> \<not> (vm_dim m = 2 \<and> tg_ncomps t = 2 \<and> array_type (tg_data t) = OMEGA_H_F64)
                \<longrightarrow> find_tag (rv_cell_tags r) (tg_name t) = Some t)"
proof -
  obtain ts where w: "write_vtu m (vm_dim m) = Inr ts" and rd: "read_vtu (vm_comm_size m) ts = Inr (vtu_of_mesh m (vm_dim m))"
    using read_write_vtu [OF assms(1)] by (cases "write_vtu m (vm_dim m)") simp_all
  obtain xs where cx: "tg_data c = AF64 xs" and lx: "length xs = vm_nents m 0 * vm_dim m"
    and cv: "tg_viz c" and cn: "tg_ncomps c = vm_dim m"
    using vmesh_ok_coords [OF assms] by blast
  have "coords_back m (vm_dim m) = tg_data c"
    using assms(2) cx lx by (auto simp: coords_back_def vectors_3d_2d_3d)
  moreover have "tg_name c = ''coordinates''"
    using assms(2) by (auto simp: find_tag_def find_Some_iff)
  ultimately have hd: "find_tag (rv_vert_tags (vtu_of_mesh m (vm_dim m))) ''coordinates'' = Some c"
    using cv cn by (cases c) (simp add: vtu_of_mesh_def find_tag_def)
  have dc: "distinct (map tg_name (vm_tags m (vm_dim m)))" using assms(1) by (simp add: vmesh_ok_def)
  show ?thesis
    using w rd hd vtu_vert_tags_find [OF assms(1)] find_tag_read_back [OF dc] read_back_tag_same
    by (simp add: vtu_of_mesh_def)
qed

text \<open>The items \<open>write_vtu\<close> writes before the cell types.\<close>

lemma write_vtu_prefix:
  assumes "write_vtu m cd = Inr ts"
  shows "\<exists>rest. ts = [write_vtkfile_vtu_start_tag, start_tag ''UnstructuredGrid'' [], write_piece_start_tag m cd,
           start_tag ''Cells'' []] @ write_connectivity m cd @ rest"
  using assms by (auto simp: write_vtu_def sbind_eq_Inr)

text \<open>
  C24: a file of edges (or of vertices) that \<open>write_vtu\<close> writes is refused by
  \<open>read_vtu\<close>: the cell type fixes the dimension to 2 or 3 or fails the CHECK.
\<close>

theorem vtu_edge_file_unreadable:
  assumes "cd < 2" and "vm_nents m 0 < 2 ^ 31" and "vm_nents m cd < 2 ^ 31"
  shows "sbind (write_vtu m cd) (read_vtu cs) = sbind (write_vtu m cd) (\<lambda>_. Inl (Check_failed ''dim == 2 || dim == 3''))"
proof (cases "write_vtu m cd")
  case (Inr ts)
  have s0: "stoi (to_string (int (vm_nents m 0))) = Inr (int (vm_nents m 0))"
    using assms(2) by (intro stoi_to_string) auto
  have sc: "stoi (to_string (int (vm_nents m cd))) = Inr (int (vm_nents m cd))"
    using assms(3) by (intro stoi_to_string) auto
  obtain rest where "ts = [write_vtkfile_vtu_start_tag, start_tag ''UnstructuredGrid'' [], write_piece_start_tag m cd,
           start_tag ''Cells'' []] @ write_connectivity m cd @ rest"
    using write_vtu_prefix [OF Inr] by blast
  then show ?thesis
    using Inr by (simp add: read_vtu_def s0 sc read_connectivity_low [OF assms(1)] attrib_def check_def
        read_vtkfile_vtu_start_tag_def read_piece_start_tag_def write_vtkfile_vtu_start_tag_def
        write_piece_start_tag_def)
qed simp

lemma write_read_vtu_exists:
  "vmesh_ok m cd \<Longrightarrow> \<exists>ts. write_vtu m cd = Inr ts \<and> read_vtu (vm_comm_size m) ts = Inr (vtu_of_mesh m cd)"
  using read_write_vtu [of m cd] by (cases "write_vtu m cd") simp_all

text \<open>
  C22: in a 2D mesh, a two-component real vertex field comes back from its file
  as a three-component field whose third components are zero.
\<close>

theorem vtu_2d_vector_fields_widened:
  assumes "vmesh_ok m 2" and "vm_dim m = 2" and "t \<in> set (vm_tags m 0)" and "tg_viz t"
    and "tg_name t \<noteq> ''coordinates''" and "tg_data t = AF64 xs" and "tg_ncomps t = 2"
  shows "\<exists>ts r. write_vtu m 2 = Inr ts \<and> read_vtu (vm_comm_size m) ts = Inr r
           \<and> find_tag (rv_vert_tags r) (tg_name t)
               = Some \<lparr>tg_name = tg_name t, tg_ncomps = 3, tg_data = AF64 (vectors_2d_to_3d xs), tg_viz = True\<rparr>"
proof -
  have "tg_name t \<noteq> ''global''"
    using vmesh_ok_global_type [OF assms(1,3)] assms(6) by auto
  then show ?thesis
    using write_read_vtu_exists [OF assms(1)] vtu_vert_tags_find [OF assms(1,3,4,5)]
      read_back_tag_widened [OF assms(6,7)] assms(2) by auto
qed

text \<open>
  C23: the file of the faces of a 3D mesh reads back as a 2D mesh whose
  coordinates have lost their third component.
\<close>

theorem vtu_face_file_drops_z:
  assumes "vmesh_ok m 2" and "vm_dim m = 3"
    and "find_tag (vm_tags m 0) ''coordinates'' = Some c" and "tg_data c = AF64 xs"
  shows "\<exists>ts r. write_vtu m 2 = Inr ts \<and> read_vtu (vm_comm_size m) ts = Inr r \<and> rv_dim r = 2
           \<and> find_tag (rv_vert_tags r) ''coordinates''
               = Some \<lparr>tg_name = ''coordinates'', tg_ncomps = 2, tg_data = AF64 (vectors_3d_to_2d xs), tg_viz = True\<rparr>"
proof -
  have "coords_back m 2 = AF64 (vectors_3d_to_2d xs)"
    using assms(2-4) by (simp add: coords_back_def)
  then show ?thesis
    using write_read_vtu_exists [OF assms(1)] by (fastforce simp: vtu_of_mesh_def find_tag_def)
qed

lemma tri_vmesh_ok: "vmesh_ok tri_vmesh 2"
  by (simp add: vmesh_ok_def tri_vmesh_def find_tag_def tag_ok_def)

lemma tet_vmesh_faces_ok: "vmesh_ok tet_vmesh 2"
  by (simp add: vmesh_ok_def tet_vmesh_def find_tag_def tag_ok_def)

theorem vtu_roundtrip_witness:
  "\<exists>ts r. write_vtu tri_vmesh 2 = Inr ts \<and> read_vtu 1 ts = Inr r \<and> rv_ncells r = 1
      \<and> find_tag (rv_vert_tags r) ''coordinates''
          = Some \<lparr>tg_name = ''coordinates'', tg_ncomps = 2, tg_data = AF64 [0, 0, 1, 0, 0, 1], tg_viz = True\<rparr>
      \<and> find_tag (rv_cell_tags r) ''class_id''
          = Some \<lparr>tg_name = ''class_id'', tg_ncomps = 1, tg_data = AI32 [7], tg_viz = True\<rparr>"
proof -
  let ?c = "\<lparr>tg_name = ''coordinates'', tg_ncomps = 2, tg_data = AF64 [0, 0, 1, 0, 0, 1], tg_viz = True\<rparr>"
  let ?k = "\<lparr>tg_name = ''class_id'', tg_ncomps = 1, tg_data = AI32 [7], tg_viz = True\<rparr>"
  have d: "vm_dim tri_vmesh = 2" and cs: "vm_comm_size tri_vmesh = 1" by (simp_all add: tri_vmesh_def)
  have f: "find_tag (vm_tags tri_vmesh 0) ''coordinates'' = Some ?c"
    by (simp add: tri_vmesh_def find_tag_def)
  have k: "?k \<in> set (vm_tags tri_vmesh 2)" and n: "vm_nents tri_vmesh 2 = 1"
    by (simp_all add: tri_vmesh_def)
  obtain ts r where "write_vtu tri_vmesh 2 = Inr ts" "read_vtu 1 ts = Inr r" "rv_ncells r = vm_nents tri_vmesh 2"
      "find_tag (rv_vert_tags r) ''coordinates'' = Some ?c"
      "\<forall>t\<in>set (vm_tags tri_vmesh 2). tg_viz t
          \<and> \<not> (2 = (2::nat) \<and> tg_ncomps t = 2 \<and> array_type (tg_data t) = OMEGA_H_F64)
          \<longrightarrow> find_tag (rv_cell_tags r) (tg_name t) = Some t"
    using vtu_roundtrip [of tri_vmesh, OF _ f] tri_vmesh_ok unfolding d cs by blast
  then show ?thesis using k n by fastforce
qed

theorem vtu_edge_file_unreadable_witness:
  "(\<exists>ts. write_vtu tri_vmesh 1 = Inr ts) \<and> sbind (write_vtu tri_vmesh 1) (read_vtu 1) = Inl (Check_failed ''dim == 2 || dim == 3'')"
proof -
  have "\<exists>ts. write_vtu tri_vmesh 1 = Inr ts"
    by (simp add: write_vtu_def get_tag_def tri_vmesh_def find_tag_def)
  then show ?thesis
    using vtu_edge_file_unreadable [of 1 tri_vmesh] by (auto simp: tri_vmesh_def)
qed

theorem vtu_2d_vector_fields_widened_witness:
  "\<exists>ts r. write_vtu tri_vmesh 2 = Inr ts \<and> read_vtu 1 ts = Inr r
      \<and> find_tag (rv_vert_tags r) ''velocity''
          = Some \<lparr>tg_name = ''velocity'', tg_ncomps = 3, tg_data = AF64 [1, 2, 0, 3, 4, 0, 5, 6, 0], tg_viz = True\<rparr>"
  using vtu_2d_vector_fields_widened [OF tri_vmesh_ok,
      of "\<lparr>tg_name = ''velocity'', tg_ncomps = 2, tg_data = AF64 [1, 2, 3, 4, 5, 6], tg_viz = True\<rparr>"
         "[1, 2, 3, 4, 5, 6]"]
  by (simp add: tri_vmesh_def)

theorem vtu_face_file_drops_z_witness:
  "\<exists>ts r. write_vtu tet_vmesh 2 = Inr ts \<and> read_vtu 1 ts = Inr r \<and> rv_dim r = 2
      \<and> find_tag (rv_vert_tags r) ''coordinates''
          = Some \<lparr>tg_name = ''coordinates'', tg_ncomps = 2, tg_data = AF64 [0, 0, 1, 0, 0, 1, 0, 0], tg_viz = True\<rparr>"
  using vtu_face_file_drops_z [OF tet_vmesh_faces_ok,
      of "\<lparr>tg_name = ''coordinates'', tg_ncomps = 3,
            tg_data = AF64 [0, 0, 0, 1, 0, 0, 0, 1, 0, 0, 0, 1], tg_viz = True\<rparr>"
         "[0, 0, 0, 1, 0, 0, 0, 1, 0, 0, 0, 1]"]
  by (simp add: tet_vmesh_def find_tag_def)

end
