(* ===== verification/VtkWriter.thy ===== *)
theory VtkWriter
  imports Vtk
begin

text \<open>
  The parallel and time-series side of \<open>vtk.cpp\<close>: the \<open>.pvtu\<close> index of a
  step, \<open>write_parallel\<close> on one rank (several ranks are in \<open>VtkParallel\<close>),
  \<open>read_parallel\<close> on any rank, the \<open>.pvd\<close> collection that
  \<open>write_initial_pvd\<close> creates and \<open>update_pvd\<close> extends in place, and the
  \<open>Writer\<close> and \<open>FullWriter\<close> classes. The file system is explicit: a list of
  directories and a map from paths to contents; a file is opened for writing only
  in an existing directory (\<open>CHECK(file.is_open())\<close>), \<open>safe_mkdir\<close> accepts an
  existing directory and needs the parent of a new one. The text of a \<open>Real\<close>
  printed with \<open><<\<close> is a parameter \<open>show_real\<close>.
\<close>

section \<open>Paths and text\<close>

definition dq :: string where "dq = [CHR 0x22]"

definition nl :: string where "nl = [CHR 0x0A]"

definition slash :: char where "slash = CHR 0x2F"

text \<open>\<open>piece_filename\<close>, \<open>get_rel_step_path\<close>, \<open>get_step_path\<close>, \<open>get_pvtu_path\<close>, \<open>get_pvd_path\<close>.\<close>

definition piece_filename :: "string \<Rightarrow> nat \<Rightarrow> string" where
  "piece_filename piecepath rank = piecepath @ ''_'' @ to_string (int rank) @ ''.vtu''"

definition get_rel_step_path :: "nat \<Rightarrow> string" where
  "get_rel_step_path step = ''steps/step_'' @ to_string (int step)"

definition get_step_path :: "string \<Rightarrow> nat \<Rightarrow> string" where
  "get_step_path root_path step = root_path @ [slash] @ get_rel_step_path step"

definition get_pvtu_path :: "string \<Rightarrow> string" where
  "get_pvtu_path step_path = step_path @ ''/pieces.pvtu''"

definition get_pvd_path :: "string \<Rightarrow> string" where
  "get_pvd_path root_path = root_path @ ''/steps.pvd''"

section \<open>The file system\<close>

datatype vfile = Text string | Items "vitem list"

record vfs =
  fs_dirs :: "string list"
  fs_files :: "string \<Rightarrow> vfile option"

text \<open>The directory part of a path: what precedes its last slash.\<close>

definition dir_of :: "string \<Rightarrow> string" where
  "dir_of p = rev (drop 1 (dropWhile (\<lambda>c. c \<noteq> slash) (rev p)))"

definition parent_ok :: "vfs \<Rightarrow> string \<Rightarrow> bool" where
  "parent_ok fs p = (dir_of p = [] \<or> dir_of p \<in> set (fs_dirs fs))"

text \<open>\<open>std::ofstream file(path); CHECK(file.is_open())\<close>, then the whole content.\<close>

definition write_file :: "string \<Rightarrow> vfile \<Rightarrow> vfs \<Rightarrow> error + vfs" where
  "write_file p c fs =
     (if parent_ok fs p then Inr (fs\<lparr>fs_files := (fs_files fs)(p \<mapsto> c)\<rparr>)
      else Inl (Check_failed ''file.is_open()''))"

text \<open>\<open>safe_mkdir\<close>: an existing directory is accepted (\<open>EEXIST\<close>).\<close>

definition safe_mkdir :: "string \<Rightarrow> vfs \<Rightarrow> error + vfs" where
  "safe_mkdir p fs =
     (if p \<in> set (fs_dirs fs) then Inr fs
      else if parent_ok fs p then Inr (fs\<lparr>fs_dirs := fs_dirs fs @ [p]\<rparr>)
      else Inl (Fail ''safe_mkdir''))"

text \<open>
  Writing \<open>s\<close> at byte \<open>pos\<close> of a file opened with \<open>in | out\<close> after
  \<open>seekp(pos)\<close>: the bytes before are kept, a gap past the end reads as zeros,
  and the bytes after the written ones are kept.
\<close>

definition overwrite :: "string \<Rightarrow> nat \<Rightarrow> string \<Rightarrow> string" where
  "overwrite f pos s = take pos f @ replicate (pos - length f) (CHR 0x00) @ s @ drop (pos + length s) f"

section \<open>The index of a parallel step\<close>

text \<open>\<open>write_p_data_array\<close> and \<open>write_p_data_array2\<close>: a self-closing \<open>PDataArray\<close>.\<close>

definition write_p_data_array :: "vtype \<Rightarrow> string \<Rightarrow> nat \<Rightarrow> vitem" where
  "write_p_data_array ty name ncomps =
     XTag \<lparr>elem_name = ''PDataArray'', kind = SELF_CLOSING, attribs = describe_array ty name ncomps\<rparr>"

text \<open>\<open>write_p_tag\<close>: real fields with as many components as the space are declared with three.\<close>

definition write_p_tag :: "vtag \<Rightarrow> nat \<Rightarrow> vitem list" where
  "write_p_tag t space_dim =
     (if \<not> tg_viz t then []
      else if array_type (tg_data t) = OMEGA_H_F64 \<and> tg_ncomps t = space_dim
      then [write_p_data_array OMEGA_H_F64 (tg_name t) 3]
      else [write_p_data_array (array_type (tg_data t)) (tg_name t) (tg_ncomps t)])"

text \<open>\<open>write_pvtu(stream, mesh, cell_dim, piecepath)\<close>.\<close>

definition write_pvtu :: "vmesh \<Rightarrow> nat \<Rightarrow> string \<Rightarrow> vitem list" where
  "write_pvtu m cd piecepath =
     [start_tag ''VTKFile'' [(''type'', ''PUnstructuredGrid'')],
      start_tag ''PUnstructuredGrid'' [(''GhostLevel'', ''0'')],
      start_tag ''PPoints'' [],
      write_p_data_array OMEGA_H_F64 ''coordinates'' 3,
      end_tag ''PPoints'',
      start_tag ''PPointData'' [],
      write_p_data_array OMEGA_H_I32 ''local'' 1]
     @ (if 1 < vm_comm_size m then [write_p_data_array OMEGA_H_I32 ''owner'' 1] else [])
     @ (if find_tag (vm_tags m 0) ''global'' \<noteq> None then [write_p_data_array OMEGA_H_I64 ''global'' 1] else [])
     @ concat (map (\<lambda>t. write_p_tag t (vm_dim m))
                 (filter (\<lambda>t. tg_name t \<noteq> ''coordinates'' \<and> tg_name t \<noteq> ''global'') (vm_tags m 0)))
     @ [end_tag ''PPointData'', start_tag ''PCellData'' [], write_p_data_array OMEGA_H_I32 ''local'' 1]
     @ (if 1 < vm_comm_size m then [write_p_data_array OMEGA_H_I32 ''owner'' 1] else [])
     @ concat (map (\<lambda>t. write_p_tag t (vm_dim m)) (vm_tags m cd))
     @ [end_tag ''PCellData'']
     @ map (\<lambda>i. XTag \<lparr>elem_name = ''Piece'', kind = SELF_CLOSING,
                       attribs = [(''Source'', piece_filename piecepath i)]\<rparr>) [0..<vm_comm_size m]
     @ [end_tag ''PUnstructuredGrid'', end_tag ''VTKFile'']"

text \<open>The file versions: \<open>write_vtu(filename, ...)\<close> and \<open>write_pvtu(filename, ...)\<close>.\<close>

definition write_vtu_file :: "string \<Rightarrow> vmesh \<Rightarrow> nat \<Rightarrow> vfs \<Rightarrow> error + vfs" where
  "write_vtu_file filename m cd fs = sbind (write_vtu m cd) (\<lambda>ts. write_file filename (Items ts) fs)"

definition write_pvtu_file :: "string \<Rightarrow> vmesh \<Rightarrow> nat \<Rightarrow> string \<Rightarrow> vfs \<Rightarrow> error + vfs" where
  "write_pvtu_file filename m cd piecepath fs = write_file filename (Items (write_pvtu m cd piecepath)) fs"

text \<open>
  \<open>write_parallel(path, mesh, cell_dim)\<close> on rank 0 of one rank: the barriers
  order nothing more.
\<close>

definition write_parallel :: "string \<Rightarrow> vmesh \<Rightarrow> nat \<Rightarrow> vfs \<Rightarrow> error + vfs" where
  "write_parallel path m cd fs =
     sbind (safe_mkdir path fs) (\<lambda>fs.
     (let piecesdir = path @ ''/pieces''
      in sbind (safe_mkdir piecesdir fs) (\<lambda>fs.
         (let piecepath = piecesdir @ ''/piece''; pvtuname = get_pvtu_path path
          in sbind (write_pvtu_file pvtuname m cd ''pieces/piece'' fs) (\<lambda>fs.
             write_vtu_file (piece_filename piecepath 0) m cd fs)))))"

section \<open>The time-series collection\<close>

definition pvd_head :: string where
  "pvd_head = ''<VTKFile type='' @ dq @ ''Collection'' @ dq @ '' version='' @ dq @ ''0.1'' @ dq @ ''>'' @ nl
              @ ''<Collection>'' @ nl"

definition pvd_tail :: string where
  "pvd_tail = ''</Collection>'' @ nl @ ''</VTKFile>'' @ nl"

text \<open>\<open>write_initial_pvd\<close>: the file, and the position of its closing tags.\<close>

definition write_initial_pvd :: "string \<Rightarrow> vfs \<Rightarrow> error + nat \<times> vfs" where
  "write_initial_pvd root_path fs =
     sbind (write_file (get_pvd_path root_path) (Text (pvd_head @ pvd_tail)) fs) (\<lambda>fs.
     Inr (length pvd_head, fs))"

text \<open>The line \<open>update_pvd\<close> writes for a step.\<close>

definition dataset_line :: "(real \<Rightarrow> string) \<Rightarrow> nat \<Rightarrow> real \<Rightarrow> string" where
  "dataset_line show_real step time =
     ''<DataSet timestep='' @ dq @ show_real time @ dq @ '' part='' @ dq @ ''0'' @ dq @ '' ''
     @ ''file='' @ dq @ get_pvtu_path (get_rel_step_path step) @ dq @ ''/>'' @ nl"

text \<open>
  \<open>update_pvd\<close>: the file must exist (\<open>std::ios::in\<close>); the line and the closing
  tags are written over the old closing tags, and the position after the line is
  returned.
\<close>

definition update_pvd ::
  "(real \<Rightarrow> string) \<Rightarrow> string \<Rightarrow> nat \<Rightarrow> nat \<Rightarrow> real \<Rightarrow> vfs \<Rightarrow> error + nat \<times> vfs" where
  "update_pvd show_real root_path pos step time fs =
     (let pvdpath = get_pvd_path root_path
      in case fs_files fs pvdpath of
           Some (Text f) \<Rightarrow>
             (let line = dataset_line show_real step time
              in Inr (pos + length line,
                      fs\<lparr>fs_files := (fs_files fs)(pvdpath \<mapsto> Text (overwrite f pos (line @ pvd_tail)))\<rparr>))
         | _ \<Rightarrow> Inl (Check_failed ''file.is_open()''))"

section \<open>Writers\<close>

text \<open>\<open>class Writer\<close>: the mesh is the argument of each operation.\<close>

record vwriter =
  wr_root :: string
  wr_cell_dim :: nat
  wr_step :: nat
  wr_pvd_pos :: nat

text \<open>\<open>Writer(mesh, root_path, cell_dim)\<close> on rank 0 of one rank.\<close>

definition writer_init :: "string \<Rightarrow> nat \<Rightarrow> vfs \<Rightarrow> error + vwriter \<times> vfs" where
  "writer_init root_path cd fs =
     sbind (safe_mkdir root_path fs) (\<lambda>fs.
     sbind (safe_mkdir (root_path @ ''/steps'') fs) (\<lambda>fs.
     sbind (write_initial_pvd root_path fs) (\<lambda>(pos, fs).
     Inr (\<lparr>wr_root = root_path, wr_cell_dim = cd, wr_step = 0, wr_pvd_pos = pos\<rparr>, fs))))"

text \<open>\<open>Writer::write(time)\<close> and \<open>Writer::write()\<close>, which uses the step as the time.\<close>

definition writer_write ::
  "(real \<Rightarrow> string) \<Rightarrow> vmesh \<Rightarrow> vwriter \<Rightarrow> real \<Rightarrow> vfs \<Rightarrow> error + vwriter \<times> vfs" where
  "writer_write show_real m w time fs =
     sbind (write_parallel (get_step_path (wr_root w) (wr_step w)) m (wr_cell_dim w) fs) (\<lambda>fs.
     sbind (update_pvd show_real (wr_root w) (wr_pvd_pos w) (wr_step w) time fs) (\<lambda>(pos, fs).
     Inr (w\<lparr>wr_pvd_pos := pos, wr_step := wr_step w + 1\<rparr>, fs)))"

definition writer_write_step ::
  "(real \<Rightarrow> string) \<Rightarrow> vmesh \<Rightarrow> vwriter \<Rightarrow> vfs \<Rightarrow> error + vwriter \<times> vfs" where
  "writer_write_step show_real m w fs = writer_write show_real m w (real (wr_step w)) fs"

text \<open>\<open>plural_names\<close>.\<close>

definition plural_names :: "string list" where
  "plural_names = [''vertices'', ''edges'', ''faces'', ''elements'']"

text \<open>\<open>FullWriter(mesh, root_path)\<close>: one writer for each dimension from edges up.\<close>

fun init_writers :: "string \<Rightarrow> nat list \<Rightarrow> vfs \<Rightarrow> error + vwriter list \<times> vfs" where
  "init_writers root_path [] fs = Inr ([], fs)"
| "init_writers root_path (i # ds) fs =
     sbind (writer_init (root_path @ ''/'' @ plural_names ! i) i fs) (\<lambda>(w, fs).
     sbind (init_writers root_path ds fs) (\<lambda>(ws, fs). Inr (w # ws, fs)))"

definition full_writer_init :: "vmesh \<Rightarrow> string \<Rightarrow> vfs \<Rightarrow> error + vwriter list \<times> vfs" where
  "full_writer_init m root_path fs =
     sbind (safe_mkdir root_path fs) (\<lambda>fs. init_writers root_path [1..<vm_dim m + 1] fs)"

text \<open>\<open>FullWriter::write(time)\<close>: the writers in order.\<close>

fun full_writer_write ::
  "(real \<Rightarrow> string) \<Rightarrow> vmesh \<Rightarrow> vwriter list \<Rightarrow> real \<Rightarrow> vfs \<Rightarrow> error + vwriter list \<times> vfs" where
  "full_writer_write show_real m [] time fs = Inr ([], fs)"
| "full_writer_write show_real m (w # ws) time fs =
     sbind (writer_write show_real m w time fs) (\<lambda>(w, fs).
     sbind (full_writer_write show_real m ws time fs) (\<lambda>(ws, fs). Inr (w # ws, fs)))"

section \<open>Reading a parallel step back\<close>

text \<open>
  \<open>read_pvtu\<close> reads the index line by line; \<open>xml::parse_tag\<close> of a line is
  the tag the line holds, if any. The pieces are counted and the one of this rank
  remembered.
\<close>

definition item_line :: "vitem \<Rightarrow> xml_tag option" where
  "item_line it = (case it of XTag t \<Rightarrow> Some t | XText _ \<Rightarrow> None)"

fun pvtu_pieces :: "nat \<Rightarrow> xml_tag option list \<Rightarrow> nat \<times> string \<Rightarrow> nat \<times> string" where
  "pvtu_pieces rank [] acc = acc"
| "pvtu_pieces rank (l # ls) (npieces, vtupath) =
     (case l of
        Some t \<Rightarrow> if elem_name t = ''Piece''
                  then pvtu_pieces rank ls (npieces + 1, if npieces = rank then attrib t ''Source'' else vtupath)
                  else pvtu_pieces rank ls (npieces, vtupath)
      | None \<Rightarrow> pvtu_pieces rank ls (npieces, vtupath))"

definition read_pvtu :: "nat \<Rightarrow> nat \<Rightarrow> xml_tag option list \<Rightarrow> error + nat \<times> string" where
  "read_pvtu rank comm_size lines =
     (case pvtu_pieces rank lines (0, []) of (npieces, vtupath) \<Rightarrow>
        sbind (check (1 \<le> npieces) ''npieces >= 1'') (\<lambda>_.
        sbind (check (npieces \<le> comm_size) ''npieces <= comm->size()'') (\<lambda>_.
        Inr (npieces, vtupath))))"

text \<open>\<open>read_pvtu(pvtupath, ...)\<close>: the piece path is relative to the index's directory.\<close>

definition read_pvtu_file :: "nat \<Rightarrow> nat \<Rightarrow> string \<Rightarrow> vfs \<Rightarrow> error + nat \<times> string" where
  "read_pvtu_file rank comm_size pvtupath fs =
     (case fs_files fs pvtupath of
        Some (Items its) \<Rightarrow>
          sbind (read_pvtu rank comm_size (map item_line its)) (\<lambda>(npieces, vtupath).
          Inr (npieces, dir_of pvtupath @ ''/'' @ vtupath))
      | _ \<Rightarrow> Inl (Fail ''couldn't open''))"

text \<open>
  \<open>read_parallel(pvtupath, comm, mesh)\<close> on rank \<open>rank\<close> of \<open>comm_size\<close>: the
  ranks below the number of pieces form the sub-communicator that reads, each its
  own piece; the others read nothing (\<open>None\<close>). Setting the communicator of the
  mesh afterwards is not modelled.
\<close>

definition read_parallel :: "nat \<Rightarrow> nat \<Rightarrow> string \<Rightarrow> vfs \<Rightarrow> error + vtu_mesh option" where
  "read_parallel rank comm_size pvtupath fs =
     sbind (read_pvtu_file rank comm_size pvtupath fs) (\<lambda>(npieces, vtupath).
     if rank < npieces
     then (case fs_files fs vtupath of
             Some (Items its) \<Rightarrow> sbind (read_vtu npieces its) (\<lambda>r. Inr (Some r))
           | _ \<Rightarrow> Inl (Check_failed ''vtustream.is_open()''))
     else Inr None)"

text \<open>
  \<open>read_pvd\<close> on the lines of a collection: the time and file of each
  \<open>DataSet\<close> line, in order; \<open>std::stod\<close> is a parameter.
\<close>

definition read_pvd :: "(string \<Rightarrow> real) \<Rightarrow> xml_tag option list \<Rightarrow> real list \<times> string list" where
  "read_pvd stod lines =
     (let dss = [t. Some t \<leftarrow> lines, elem_name t = ''DataSet'']
      in (map (\<lambda>t. stod (attrib t ''timestep'')) dss, map (\<lambda>t. attrib t ''file'') dss))"

section \<open>What the writer promises\<close>

text \<open>
  The lines a collection should list after the times \<open>ts\<close> were written, step
  \<open>k\<close> at time \<open>ts ! k\<close>.
\<close>

definition pvd_entries :: "(real \<Rightarrow> string) \<Rightarrow> real list \<Rightarrow> string" where
  "pvd_entries show_real ts = concat (map (\<lambda>(k, t). dataset_line show_real k t) (zip [0..<length ts] ts))"

text \<open>The states a \<open>Writer\<close> reaches from its construction through writes at the times \<open>ts\<close>.\<close>

inductive writer_reach ::
  "(real \<Rightarrow> string) \<Rightarrow> vmesh \<Rightarrow> string \<Rightarrow> nat \<Rightarrow> vfs \<Rightarrow> vwriter \<times> vfs \<Rightarrow> real list \<Rightarrow> bool"
  for show_real m root_path cd fs0 where
  start: "writer_init root_path cd fs0 = Inr (w, fs) \<Longrightarrow> writer_reach show_real m root_path cd fs0 (w, fs) []"
| step: "writer_reach show_real m root_path cd fs0 (w, fs) ts \<Longrightarrow> writer_write show_real m w t fs = Inr (w', fs')
          \<Longrightarrow> writer_reach show_real m root_path cd fs0 (w', fs') (ts @ [t])"

text \<open>
  The data arrays a file declares, in order: name, type and number of components
  of each \<open>DataArray\<close> or \<open>PDataArray\<close> start or self-closing tag.
\<close>

fun array_decls :: "vitem list \<Rightarrow> (string \<times> string \<times> string) list" where
  "array_decls [] = []"
| "array_decls (XText _ # ts) = array_decls ts"
| "array_decls (XTag t # ts) =
     (if (elem_name t = ''DataArray'' \<or> elem_name t = ''PDataArray'') \<and> kind t \<noteq> END
      then (attrib t ''Name'', attrib t ''type'', attrib t ''NumberOfComponents'') # array_decls ts
      else array_decls ts)"

section \<open>Example\<close>

text \<open>A mesh of one edge in one dimension.\<close>

definition line_vmesh :: vmesh where
  "line_vmesh =
     \<lparr>vm_dim = 1, vm_nents = (\<lambda>d. [2, 1, 0, 0] ! d), vm_verts_of = (\<lambda>d. if d = 1 then [0, 1] else []),
      vm_tags = (\<lambda>d. if d = 0 then
                        [\<lparr>tg_name = ''coordinates'', tg_ncomps = 1, tg_data = AF64 [0, 1], tg_viz = True\<rparr>]
                      else []),
      vm_owners = (\<lambda>_. []), vm_comm_size = 1\<rparr>"

section \<open>Paths and files\<close>

lemma pvd_entries_snoc:
  "pvd_entries s (ts @ [t]) = pvd_entries s ts @ dataset_line s (length ts) t"
  by (simp add: pvd_entries_def)

lemma overwrite_at_end:
  "overwrite (p @ q) (length p) (l @ q) = p @ l @ q"
  by (simp add: overwrite_def)

lemma slash_not_digit: "slash \<notin> set (to_string (int k))"
proof -
  have "\<forall>c\<in>set (nat_digits k). is_digit c" by (rule nat_digits_digits)
  then show ?thesis by (auto simp: to_string_def slash_def is_digit_def)
qed

lemma dir_of_append:
  assumes "slash \<notin> set f"
  shows "dir_of (d @ slash # f) = d"
proof -
  have "dropWhile (\<lambda>c. c \<noteq> slash) (rev f @ slash # rev d) = slash # rev d"
    using assms by (subst dropWhile_append2) auto
  then show ?thesis by (simp add: dir_of_def)
qed

lemma dir_of_step_path: "dir_of (get_step_path r k) = r @ ''/steps''"
  using dir_of_append [of "''step_'' @ to_string (int k)" "r @ ''/steps''"] slash_not_digit [of k]
  by (simp add: get_step_path_def get_rel_step_path_def slash_def)

lemma dir_of_pieces: "dir_of (p @ ''/pieces'') = p"
  using dir_of_append [of "''pieces''" p] by (simp add: slash_def)

lemma dir_of_pvtu: "dir_of (get_pvtu_path p) = p"
  using dir_of_append [of "''pieces.pvtu''" p] by (simp add: get_pvtu_path_def slash_def)

lemma dir_of_piece_file: "dir_of (piece_filename (p @ ''/pieces/piece'') k) = p @ ''/pieces''"
  using dir_of_append [of "''piece_'' @ to_string (int k) @ ''.vtu''" "p @ ''/pieces''"] slash_not_digit [of k]
  by (simp add: piece_filename_def slash_def)


lemma safe_mkdir_Inr:
  "safe_mkdir p fs = Inr fs' \<Longrightarrow> set (fs_dirs fs') = insert p (set (fs_dirs fs)) \<and> fs_files fs' = fs_files fs"
  by (auto simp: safe_mkdir_def split: if_splits)

lemma safe_mkdir_ok: "parent_ok fs p \<Longrightarrow> \<exists>fs'. safe_mkdir p fs = Inr fs'"
  by (simp add: safe_mkdir_def)

lemma write_file_Inr:
  "write_file p c fs = Inr fs' \<Longrightarrow> fs_dirs fs' = fs_dirs fs \<and> fs_files fs' = (fs_files fs)(p \<mapsto> c)"
  by (auto simp: write_file_def split: if_splits)

lemma write_file_ok: "parent_ok fs p \<Longrightarrow> \<exists>fs'. write_file p c fs = Inr fs'"
  by (simp add: write_file_def)

lemma parent_okI: "dir_of p \<in> set (fs_dirs fs) \<Longrightarrow> parent_ok fs p"
  by (simp add: parent_ok_def)

text \<open>What \<open>write_parallel\<close> leaves: the directories grow, only its two files change.\<close>

lemma write_parallel_Inr:
  assumes "write_parallel path m cd fs = Inr fs'"
  shows "set (fs_dirs fs) \<subseteq> set (fs_dirs fs')
         \<and> (\<forall>p. p \<noteq> get_pvtu_path path \<and> p \<noteq> piece_filename (path @ ''/pieces/piece'') 0
                 \<longrightarrow> fs_files fs' p = fs_files fs p)"
  using assms
  by (auto simp: write_parallel_def write_pvtu_file_def write_vtu_file_def sbind_eq_Inr Let_def
      dest!: safe_mkdir_Inr write_file_Inr)

lemma write_parallel_ok:
  assumes "parent_ok fs path" and "write_vtu m cd = Inr ts"
  shows "\<exists>fs'. write_parallel path m cd fs = Inr fs'"
proof -
  obtain fs1 where 1: "safe_mkdir path fs = Inr fs1" using safe_mkdir_ok [OF assms(1)] by blast
  have d1: "path \<in> set (fs_dirs fs1)" using safe_mkdir_Inr [OF 1] by simp
  obtain fs2 where 2: "safe_mkdir (path @ ''/pieces'') fs1 = Inr fs2"
    using safe_mkdir_ok [of fs1 "path @ ''/pieces''"] d1 by (auto simp: parent_ok_def dir_of_pieces)
  have d2: "path \<in> set (fs_dirs fs2)" "path @ ''/pieces'' \<in> set (fs_dirs fs2)"
    using safe_mkdir_Inr [OF 2] d1 by auto
  obtain fs3 where 3: "write_pvtu_file (get_pvtu_path path) m cd ''pieces/piece'' fs2 = Inr fs3"
    using write_file_ok [of fs2 "get_pvtu_path path"] d2
    by (auto simp: write_pvtu_file_def parent_ok_def dir_of_pvtu)
  have d3: "path @ ''/pieces'' \<in> set (fs_dirs fs3)"
    using write_file_Inr [of _ _ fs2 fs3] 3 d2 by (auto simp: write_pvtu_file_def)
  obtain fs4 where "write_file (piece_filename (path @ ''/pieces/piece'') 0) (Items ts) fs3 = Inr fs4"
    using write_file_ok [of fs3 "piece_filename (path @ ''/pieces/piece'') 0" "Items ts"] d3
      dir_of_piece_file [of path 0] by (auto simp: parent_ok_def)
  then show ?thesis using 1 2 3 assms(2)
    by (simp add: write_parallel_def write_vtu_file_def Let_def)
qed

lemma pvd_path_not_step_file:
  "get_pvd_path r \<noteq> get_pvtu_path (get_step_path r k)"
  "get_pvd_path r \<noteq> piece_filename (get_step_path r k @ ''/pieces/piece'') 0"
  by (simp_all add: get_pvd_path_def get_pvtu_path_def get_step_path_def get_rel_step_path_def
      piece_filename_def slash_def)

section \<open>The collection and the writer\<close>

lemma update_pvd_at_tail:
  assumes "fs_files fs (get_pvd_path r) = Some (Text (p @ pvd_tail))"
  shows "update_pvd s r (length p) k t fs
         = Inr (length p + length (dataset_line s k t),
                fs\<lparr>fs_files := (fs_files fs)(get_pvd_path r \<mapsto> Text (p @ dataset_line s k t @ pvd_tail))\<rparr>)"
  using assms overwrite_at_end [of p pvd_tail "dataset_line s k t"]
  by (simp add: update_pvd_def Let_def)

text \<open>
  C25: \<open>update_pvd\<close> refines appending an entry to the collection: on a
  collection file listing the times \<open>ts\<close>, at the position \<open>write_initial_pvd\<close>
  and earlier updates returned, it yields the file listing \<open>ts @ [t]\<close> and the
  position of its closing tags.
\<close>

theorem update_pvd_appends_entry:
  assumes "fs_files fs (get_pvd_path r) = Some (Text (pvd_head @ pvd_entries s ts @ pvd_tail))"
  shows "update_pvd s r (length (pvd_head @ pvd_entries s ts)) (length ts) t fs
         = Inr (length (pvd_head @ pvd_entries s (ts @ [t])),
                fs\<lparr>fs_files := (fs_files fs)(get_pvd_path r \<mapsto> Text (pvd_head @ pvd_entries s (ts @ [t]) @ pvd_tail))\<rparr>)"
  using update_pvd_at_tail [of fs r "pvd_head @ pvd_entries s ts" s "length ts" t] assms
  by (simp add: pvd_entries_snoc)

lemma writer_init_Inr:
  assumes "writer_init r cd fs0 = Inr (w, fs)"
  shows "w = \<lparr>wr_root = r, wr_cell_dim = cd, wr_step = 0, wr_pvd_pos = length pvd_head\<rparr>
         \<and> fs_files fs (get_pvd_path r) = Some (Text (pvd_head @ pvd_tail))
         \<and> r @ ''/steps'' \<in> set (fs_dirs fs)"
  using assms
  by (auto simp: writer_init_def write_initial_pvd_def sbind_eq_Inr dest!: safe_mkdir_Inr write_file_Inr)

lemma writer_write_Inr:
  assumes "writer_write s m w t fs = Inr (w', fs')"
    and "fs_files fs (get_pvd_path (wr_root w)) = Some (Text (p @ pvd_tail))" and "wr_pvd_pos w = length p"
  shows "w' = w\<lparr>wr_pvd_pos := length p + length (dataset_line s (wr_step w) t), wr_step := wr_step w + 1\<rparr>
         \<and> fs_files fs' (get_pvd_path (wr_root w)) = Some (Text (p @ dataset_line s (wr_step w) t @ pvd_tail))
         \<and> set (fs_dirs fs) \<subseteq> set (fs_dirs fs')"
proof -
  obtain fs1 where wp: "write_parallel (get_step_path (wr_root w) (wr_step w)) m (wr_cell_dim w) fs = Inr fs1"
    and up: "update_pvd s (wr_root w) (wr_pvd_pos w) (wr_step w) t fs1 = Inr (wr_pvd_pos w', fs')"
    and w': "w' = w\<lparr>wr_pvd_pos := wr_pvd_pos w', wr_step := wr_step w + 1\<rparr>"
    using assms(1) by (auto simp: writer_write_def sbind_eq_Inr)
  have "set (fs_dirs fs) \<subseteq> set (fs_dirs fs1)"
    and "fs_files fs1 (get_pvd_path (wr_root w)) = Some (Text (p @ pvd_tail))"
    using write_parallel_Inr [OF wp] pvd_path_not_step_file assms(2) by auto
  then show ?thesis
    using up w' update_pvd_at_tail [of fs1 "wr_root w" p s "wr_step w" t] assms(3) by auto
qed

lemma writer_reach_state:
  assumes "writer_reach s m r cd fs0 (w, fs) ts"
  shows "wr_root w = r \<and> wr_cell_dim w = cd \<and> wr_step w = length ts
       \<and> wr_pvd_pos w = length (pvd_head @ pvd_entries s ts)
       \<and> fs_files fs (get_pvd_path r) = Some (Text (pvd_head @ pvd_entries s ts @ pvd_tail))
       \<and> r @ ''/steps'' \<in> set (fs_dirs fs)"
  using assms
proof (induction "(w, fs)" ts arbitrary: w fs rule: writer_reach.induct)
  case (start w fs)
  then show ?case using writer_init_Inr [of r cd fs0 w fs] by (simp add: pvd_entries_def)
next
  case (step w fs ts t w' fs')
  then show ?case
    using writer_write_Inr [of s m w t fs w' fs' "pvd_head @ pvd_entries s ts"]
    by (auto simp: pvd_entries_snoc)
qed

lemma writer_write_ok:
  assumes "r @ ''/steps'' \<in> set (fs_dirs fs)" and "wr_root w = r"
    and "fs_files fs (get_pvd_path r) = Some (Text f)" and "write_vtu m (wr_cell_dim w) = Inr vs"
  shows "\<exists>w' fs'. writer_write s m w t fs = Inr (w', fs')"
proof -
  obtain fs1 where wp: "write_parallel (get_step_path r (wr_step w)) m (wr_cell_dim w) fs = Inr fs1"
    using write_parallel_ok [OF _ assms(4), of fs "get_step_path r (wr_step w)"] assms(1)
      dir_of_step_path [of r "wr_step w"] by (auto simp: parent_ok_def)
  have "fs_files fs1 (get_pvd_path r) = Some (Text f)"
    using write_parallel_Inr [OF wp] pvd_path_not_step_file assms(3) by auto
  then show ?thesis using wp assms(2) by (simp add: writer_write_def update_pvd_def Let_def)
qed

text \<open>
  C26: every state a \<open>Writer\<close> reaches keeps its root and cell dimension, counts
  the writes in its step, keeps the collection file listing exactly the times
  written, in order, with its position at the closing tags, and can write again
  whenever the mesh can be written.
\<close>

theorem writer_reach_invariant:
  assumes "writer_reach s m r cd fs0 (w, fs) ts"
  shows "wr_root w = r \<and> wr_cell_dim w = cd \<and> wr_step w = length ts
       \<and> wr_pvd_pos w = length (pvd_head @ pvd_entries s ts)
       \<and> fs_files fs (get_pvd_path r) = Some (Text (pvd_head @ pvd_entries s ts @ pvd_tail))
       \<and> (\<forall>t vs. write_vtu m cd = Inr vs \<longrightarrow> (\<exists>w' fs'. writer_write s m w t fs = Inr (w', fs')))"
  using writer_reach_state [OF assms] writer_write_ok [of r fs w] by auto


theorem update_pvd_appends_entry_witness:
  "update_pvd (\<lambda>r. to_string \<lfloor>r\<rfloor>) ''out'' (length (pvd_head @ pvd_entries (\<lambda>r. to_string \<lfloor>r\<rfloor>) [])) (length ([] :: real list)) 1
     \<lparr>fs_dirs = [''out''], fs_files = [''out/steps.pvd'' \<mapsto> Text (pvd_head @ pvd_entries (\<lambda>r. to_string \<lfloor>r\<rfloor>) [] @ pvd_tail)]\<rparr>
   = Inr (length (pvd_head @ pvd_entries (\<lambda>r. to_string \<lfloor>r\<rfloor>) [1]),
          \<lparr>fs_dirs = [''out''], fs_files = [''out/steps.pvd'' \<mapsto> Text (pvd_head @ pvd_entries (\<lambda>r. to_string \<lfloor>r\<rfloor>) [1] @ pvd_tail)]\<rparr>)"
  using update_pvd_appends_entry [of "\<lparr>fs_dirs = [''out''], fs_files = [''out/steps.pvd'' \<mapsto> Text (pvd_head @ pvd_entries (\<lambda>r. to_string \<lfloor>r\<rfloor>) [] @ pvd_tail)]\<rparr>"
      "''out''" "\<lambda>r. to_string \<lfloor>r\<rfloor>" "[]" 1]
  by (simp add: get_pvd_path_def)

theorem writer_reach_invariant_witness:
  "\<exists>w fs. writer_reach (\<lambda>r. to_string \<lfloor>r\<rfloor>) tri_vmesh ''out'' 2 \<lparr>fs_dirs = [], fs_files = Map.empty\<rparr> (w, fs) [0, 1]
      \<and> wr_step w = 2
      \<and> fs_files fs ''out/steps.pvd'' = Some (Text (pvd_head @ pvd_entries (\<lambda>r. to_string \<lfloor>r\<rfloor>) [0, 1] @ pvd_tail))"
proof -
  let ?s = "\<lambda>r::real. to_string \<lfloor>r\<rfloor>" and ?fs = "\<lparr>fs_dirs = [], fs_files = Map.empty\<rparr>"
  have "\<exists>x. writer_init ''out'' 2 ?fs = Inr x"
    by (simp add: writer_init_def safe_mkdir_def parent_ok_def dir_of_def write_initial_pvd_def
        write_file_def get_pvd_path_def slash_def)
  then obtain w0 fs0 where "writer_init ''out'' 2 ?fs = Inr (w0, fs0)" by auto
  then have r0: "writer_reach ?s tri_vmesh ''out'' 2 ?fs (w0, fs0) []" by (rule writer_reach.start)
  obtain vs where vs: "write_vtu tri_vmesh 2 = Inr vs"
    by (auto simp: write_vtu_def get_tag_def tri_vmesh_def find_tag_def)
  obtain w1 fs1 where "writer_write ?s tri_vmesh w0 0 fs0 = Inr (w1, fs1)"
    using writer_reach_invariant [OF r0] vs by blast
  then have r1: "writer_reach ?s tri_vmesh ''out'' 2 ?fs (w1, fs1) [0]"
    using writer_reach.step [OF r0] by fastforce
  obtain w2 fs2 where "writer_write ?s tri_vmesh w1 1 fs1 = Inr (w2, fs2)"
    using writer_reach_invariant [OF r1] vs by blast
  then have r2: "writer_reach ?s tri_vmesh ''out'' 2 ?fs (w2, fs2) [0, 1]"
    using writer_reach.step [OF r1] by fastforce
  have "wr_step w2 = 2"
    and "fs_files fs2 ''out/steps.pvd'' = Some (Text (pvd_head @ pvd_entries ?s [0, 1] @ pvd_tail))"
    using writer_reach_invariant [OF r2] by (simp_all add: get_pvd_path_def)
  then show ?thesis using r2 by blast
qed

section \<open>The index and its pieces\<close>

lemma array_decls_append [simp]: "array_decls (xs @ ys) = array_decls xs @ array_decls ys"
  by (induction xs rule: array_decls.induct) simp_all

lemma array_decls_write_array [simp]:
  "array_decls (write_array name nc a) = [(name, type_name (array_type a), to_string (int nc))]"
  by (simp add: write_array_def start_tag_def end_tag_def describe_array_def attrib_def)

lemma array_decls_p_data_array [simp]:
  "array_decls (write_p_data_array ty name nc # ts) = (name, type_name ty, to_string (int nc)) # array_decls ts"
  by (simp add: write_p_data_array_def describe_array_def attrib_def)

lemma array_decls_tags [simp]:
  "n \<noteq> ''DataArray'' \<Longrightarrow> n \<noteq> ''PDataArray'' \<Longrightarrow> array_decls (start_tag n a # ts) = array_decls ts"
  "array_decls (end_tag n # ts) = array_decls ts"
  by (simp_all add: start_tag_def end_tag_def)

lemma array_decls_pieces [simp]:
  "array_decls (map (\<lambda>i. XTag \<lparr>elem_name = ''Piece'', kind = SELF_CLOSING, attribs = f i\<rparr>) xs) = []"
  by (induction xs) simp_all

lemma array_decls_write_tag:
  "array_decls (write_tag t d) =
     (if tg_viz t then [(tg_name t, type_name (array_type (tg_data t)),
                        to_string (int (if array_type (tg_data t) = OMEGA_H_F64 \<and> d = 2 \<and> tg_ncomps t = d
                                        then 3 else tg_ncomps t)))]
      else [])"
  by (cases "tg_data t") (simp_all add: write_tag_def)

lemma array_decls_write_p_tag:
  "d = 2 \<or> d = 3 \<Longrightarrow> array_decls (write_p_tag t d) = array_decls (write_tag t d)"
  by (cases "tg_data t") (auto simp: write_p_tag_def array_decls_write_tag)

lemma array_decls_concat_p_tags:
  "d = 2 \<or> d = 3 \<Longrightarrow>
   array_decls (concat (map (\<lambda>t. write_p_tag t d) ts)) = array_decls (concat (map (\<lambda>t. write_tag t d) ts))"
  by (induction ts) (simp_all add: array_decls_write_p_tag)

text \<open>
  C27: for a 2D or 3D mesh whose coordinates and global numbers are output fields
  of the usual widths, the \<open>.pvtu\<close> index declares exactly the arrays each
  \<open>.vtu\<close> piece holds after its cell connectivity, in the same order, with the same
  names, types and numbers of components.
\<close>

theorem pvtu_declares_piece_arrays:
  assumes "vm_dim m = 2 \<or> vm_dim m = 3" and "0 < vm_comm_size m" and "write_vtu m cd = Inr ts"
    and "find_tag (vm_tags m 0) ''coordinates'' = Some c" and "tg_viz c" and "tg_ncomps c = vm_dim m"
    and "\<forall>g. find_tag (vm_tags m 0) ''global'' = Some g \<longrightarrow> tg_viz g \<and> tg_ncomps g = 1"
  shows "array_decls (write_pvtu m cd pp) = drop 3 (array_decls ts)"
proof -
  have cn: "tg_name c = ''coordinates''" using assms(4) by (auto simp: find_tag_def find_Some_iff)
  have ct: "array_type (tg_data c) = OMEGA_H_F64"
    using assms(3,4) by (auto simp: write_vtu_def get_tag_def sbind_eq_Inr split: if_splits)
  have coords: "array_decls (write_tag c (vm_dim m)) = [(''coordinates'', ''Float64'', to_string 3)]"
    using assms(1,5,6) cn ct by (auto simp: array_decls_write_tag)
  have glob: "array_decls gl = (if find_tag (vm_tags m 0) ''global'' \<noteq> None
                                 then [(''global'', ''Int64'', to_string 1)] else [])"
    if "(case find_tag (vm_tags m 0) ''global'' of None \<Rightarrow> Inr []
         | Some _ \<Rightarrow> sbind (get_tag m 0 ''global'' OMEGA_H_I64) (\<lambda>g. Inr (write_tag g (vm_dim m)))) = Inr gl"
    for gl
  proof (cases "find_tag (vm_tags m 0) ''global''")
    case (Some g)
    then have "tg_name g = ''global''" by (auto simp: find_tag_def find_Some_iff)
    then show ?thesis using that Some assms(7)
      by (auto simp: get_tag_def array_decls_write_tag split: if_splits)
  qed (use that in simp)
  show ?thesis
    using assms(3) assms(1,2) coords ct
    by (auto simp: write_vtu_def write_pvtu_def get_tag_def assms(4) sbind_eq_Inr write_connectivity_def
        write_locals_and_owners_def write_vtkfile_vtu_start_tag_def write_piece_start_tag_def Let_def
        array_decls_concat_p_tags glob)
qed


theorem pvtu_declares_piece_arrays_witness:
  "\<exists>ts. write_vtu tri_vmesh 2 = Inr ts
        \<and> array_decls (write_pvtu tri_vmesh 2 ''pieces/piece'') = drop 3 (array_decls ts)"
proof -
  obtain ts where ts: "write_vtu tri_vmesh 2 = Inr ts"
    by (auto simp: write_vtu_def get_tag_def tri_vmesh_def find_tag_def)
  have "array_decls (write_pvtu tri_vmesh 2 ''pieces/piece'') = drop 3 (array_decls ts)"
    by (rule pvtu_declares_piece_arrays [OF _ _ ts,
          of "\<lparr>tg_name = ''coordinates'', tg_ncomps = 2, tg_data = AF64 [0, 0, 1, 0, 0, 1], tg_viz = True\<rparr>"])
       (simp_all add: tri_vmesh_def find_tag_def)
  then show ?thesis using ts by blast
qed

text \<open>
  In one dimension the index and the piece disagree: the index declares the
  one-component coordinates with three components.
\<close>

lemma to_string_3_1: "to_string 3 \<noteq> to_string 1"
  using stoi_to_string [of 3] stoi_to_string [of 1] by auto

lemma pvtu_1d_coords_mismatch:
  "\<exists>ts. write_vtu line_vmesh 1 = Inr ts
        \<and> array_decls (write_pvtu line_vmesh 1 ''pieces/piece'') \<noteq> drop 3 (array_decls ts)"
  using to_string_3_1
  by (simp add: write_vtu_def get_tag_def line_vmesh_def find_tag_def write_pvtu_def write_connectivity_def
      write_tag_def write_vtkfile_vtu_start_tag_def write_piece_start_tag_def)

section \<open>Reading an index, and the full writer\<close>

lemma pvtu_pieces_append:
  "pvtu_pieces r (xs @ ys) acc = pvtu_pieces r ys (pvtu_pieces r xs acc)"
  by (induction r xs acc rule: pvtu_pieces.induct) (simp_all split: option.splits)

lemma pvtu_pieces_other:
  "\<forall>l\<in>set ls. \<forall>t. l = Some t \<longrightarrow> elem_name t \<noteq> ''Piece'' \<Longrightarrow> pvtu_pieces r ls acc = acc"
  by (induction r ls acc rule: pvtu_pieces.induct) (auto split: option.splits)

lemma write_p_tag_names: "it \<in> set (write_p_tag t d) \<Longrightarrow> it \<in> XTag ` {x. elem_name x = ''PDataArray''}"
  by (auto simp: write_p_tag_def write_p_data_array_def split: if_splits)

lemma init_writers_Inr:
  "init_writers r ds fs = Inr (ws, fs') \<Longrightarrow>
   map wr_cell_dim ws = ds \<and> map wr_root ws = map (\<lambda>i. r @ ''/'' @ plural_names ! i) ds"
proof (induction r ds fs arbitrary: ws fs' rule: init_writers.induct)
  case (2 r i ds fs)
  then show ?case
    by (auto simp: sbind_eq_Inr writer_init_def write_initial_pvd_def split: prod.splits)
qed simp

text \<open>
  \<open>FullWriter\<close> makes one writer per dimension from edges up, each in its
  own directory under the root.
\<close>

lemma full_writer_init_writers:
  assumes "full_writer_init m r fs = Inr (ws, fs')"
  shows "map wr_cell_dim ws = [1..<vm_dim m + 1]
         \<and> map wr_root ws = map (\<lambda>i. r @ ''/'' @ plural_names ! i) [1..<vm_dim m + 1]"
  using assms init_writers_Inr by (auto simp: full_writer_init_def sbind_eq_Inr)

end
