(* ===== verification/VtkSeries.thy ===== *)
theory VtkSeries
  imports VtkWriter
begin

text \<open>
  Reading a time series back, and the \<open>FullWriter\<close> over many writes.
  \<open>read_pvd(pvdpath, ...)\<close> reads the collection text line by line
  (\<open>std::getline\<close>) and parses each line with \<open>xml::parse_tag\<close>; both are
  outside \<open>src/\<close> and modelled here for the one-tag-per-line format the writers
  print: a tag is \<open><name\<close>, attributes \<open> key="value"\<close>, then \<open>>\<close> or \<open>/>\<close>,
  and an end tag is \<open></name>\<close>.
\<close>

section \<open>Lines and tags\<close>

definition nlc :: char where "nlc = CHR 0x0A"

definition dqc :: char where "dqc = CHR 0x22"

text \<open>\<open>std::getline\<close> in a loop: the lines, without their newlines; no empty last line.\<close>

function split_lines :: "string \<Rightarrow> string list" where
  "split_lines [] = []"
| "split_lines (c # s) =
     takeWhile (\<lambda>x. x \<noteq> nlc) (c # s) # split_lines (drop 1 (dropWhile (\<lambda>x. x \<noteq> nlc) (c # s)))"
  by pat_completeness auto
termination
proof (relation "measure length")
  fix c :: char and s :: string
  have "length (dropWhile (\<lambda>x. x \<noteq> nlc) (c # s)) \<le> Suc (length s)"
    using length_dropWhile_le [of "\<lambda>x. x \<noteq> nlc" "c # s"] by simp
  then show "(drop 1 (dropWhile (\<lambda>x. x \<noteq> nlc) (c # s)), c # s) \<in> measure length" by simp
qed simp

text \<open>\<open>xml::parse_tag\<close>: the attributes, each \<open> key="value"\<close>, and what follows them.\<close>

function parse_attrs :: "string \<Rightarrow> ((string \<times> string) list \<times> string) option" where
  "parse_attrs [] = Some ([], [])"
| "parse_attrs (c # s) =
     (if c \<noteq> CHR '' '' then Some ([], c # s)
      else (let k = takeWhile (\<lambda>x. x \<noteq> CHR ''='') s
            in case dropWhile (\<lambda>x. x \<noteq> CHR ''='') s of
                 _ # q # r \<Rightarrow>
                   if q \<noteq> dqc then None
                   else (case dropWhile (\<lambda>x. x \<noteq> dqc) r of
                           _ # r' \<Rightarrow> (case parse_attrs r' of
                                        Some (atts, rest) \<Rightarrow> Some ((k, takeWhile (\<lambda>x. x \<noteq> dqc) r) # atts, rest)
                                      | None \<Rightarrow> None)
                         | [] \<Rightarrow> None)
               | _ \<Rightarrow> None))"
  by pat_completeness auto
termination
  apply (relation "measure length")
   apply simp
  apply simp
  subgoal for c s x x21 x22 x21a x22a x21b x22b
    using length_dropWhile_le [of "\<lambda>x. x \<noteq> dqc" x22a] length_dropWhile_le [of "\<lambda>x. x \<noteq> CHR ''=''" s]
    by simp
  done

definition parse_tag :: "string \<Rightarrow> xml_tag option" where
  "parse_tag line =
     (case line of
        c # s \<Rightarrow>
          if c \<noteq> CHR ''<'' then None
          else (case s of
                  d # s' \<Rightarrow>
                    if d = CHR ''/'' then
                      (if dropWhile (\<lambda>x. x \<noteq> CHR ''>'') s' = ''>''
                       then Some \<lparr>elem_name = takeWhile (\<lambda>x. x \<noteq> CHR ''>'') s', kind = END, attribs = []\<rparr>
                       else None)
                    else
                      (let name = takeWhile (\<lambda>x. x \<notin> {CHR '' '', CHR ''>'', CHR ''/''}) s
                       in case parse_attrs (dropWhile (\<lambda>x. x \<notin> {CHR '' '', CHR ''>'', CHR ''/''}) s) of
                            Some (atts, rest) \<Rightarrow>
                              if rest = ''>'' then Some \<lparr>elem_name = name, kind = START, attribs = atts\<rparr>
                              else if rest = ''/>'' then Some \<lparr>elem_name = name, kind = SELF_CLOSING, attribs = atts\<rparr>
                              else None
                          | None \<Rightarrow> None)
                | [] \<Rightarrow> None)
      | [] \<Rightarrow> None)"

text \<open>The text of a tag in that format, as the writers print it.\<close>

definition print_attr :: "string \<times> string \<Rightarrow> string" where
  "print_attr a = '' '' @ fst a @ ''='' @ [dqc] @ snd a @ [dqc]"

definition print_tag :: "xml_tag \<Rightarrow> string" where
  "print_tag t =
     (case kind t of
        END \<Rightarrow> ''</'' @ elem_name t @ ''>''
      | START \<Rightarrow> ''<'' @ elem_name t @ concat (map print_attr (attribs t)) @ ''>''
      | SELF_CLOSING \<Rightarrow> ''<'' @ elem_name t @ concat (map print_attr (attribs t)) @ ''/>'')"

text \<open>The tags of a collection that lists the times \<open>ts\<close>, one per line.\<close>

definition dataset_tag :: "(real \<Rightarrow> string) \<Rightarrow> nat \<Rightarrow> real \<Rightarrow> xml_tag" where
  "dataset_tag show_real step time =
     \<lparr>elem_name = ''DataSet'', kind = SELF_CLOSING,
      attribs = [(''timestep'', show_real time), (''part'', ''0''),
                 (''file'', get_pvtu_path (get_rel_step_path step))]\<rparr>"

definition pvd_tags :: "(real \<Rightarrow> string) \<Rightarrow> real list \<Rightarrow> xml_tag list" where
  "pvd_tags show_real ts =
     [\<lparr>elem_name = ''VTKFile'', kind = START, attribs = [(''type'', ''Collection''), (''version'', ''0.1'')]\<rparr>,
      \<lparr>elem_name = ''Collection'', kind = START, attribs = []\<rparr>]
     @ map (\<lambda>(k, t). dataset_tag show_real k t) (zip [0..<length ts] ts)
     @ [\<lparr>elem_name = ''Collection'', kind = END, attribs = []\<rparr>,
        \<lparr>elem_name = ''VTKFile'', kind = END, attribs = []\<rparr>]"

section \<open>Reading a collection file\<close>

text \<open>
  \<open>read_pvd(pvdpath, times, pvtupaths)\<close>: the file must open; the index paths
  are made relative to the collection's directory.
\<close>

definition read_pvd_file ::
  "(string \<Rightarrow> real) \<Rightarrow> string \<Rightarrow> vfs \<Rightarrow> error + real list \<times> string list" where
  "read_pvd_file stod pvdpath fs =
     (case fs_files fs pvdpath of
        Some (Text f) \<Rightarrow>
          (case read_pvd stod (map parse_tag (split_lines f)) of (tms, pvtupaths) \<Rightarrow>
             Inr (tms, map (\<lambda>p. dir_of pvdpath @ ''/'' @ p) pvtupaths))
      | _ \<Rightarrow> Inl (Check_failed ''pvdstream.is_open()''))"

section \<open>The full writer over many steps\<close>

text \<open>\<open>FullWriter::write()\<close>: each writer writes with its own step as the time.\<close>

fun full_writer_write_step ::
  "(real \<Rightarrow> string) \<Rightarrow> vmesh \<Rightarrow> vwriter list \<Rightarrow> vfs \<Rightarrow> error + vwriter list \<times> vfs" where
  "full_writer_write_step show_real m [] fs = Inr ([], fs)"
| "full_writer_write_step show_real m (w # ws) fs =
     sbind (writer_write_step show_real m w fs) (\<lambda>(w, fs).
     sbind (full_writer_write_step show_real m ws fs) (\<lambda>(ws, fs). Inr (w # ws, fs)))"

text \<open>A run of \<open>FullWriter::write(time)\<close> calls, one per time, in order.\<close>

fun full_writer_run ::
  "(real \<Rightarrow> string) \<Rightarrow> vmesh \<Rightarrow> vwriter list \<Rightarrow> real list \<Rightarrow> vfs \<Rightarrow> error + vwriter list \<times> vfs" where
  "full_writer_run show_real m ws [] fs = Inr (ws, fs)"
| "full_writer_run show_real m ws (t # ts) fs =
     sbind (full_writer_write show_real m ws t fs) (\<lambda>(ws, fs). full_writer_run show_real m ws ts fs)"

text \<open>
  A writer of root \<open>r\<close> and cell dimension \<open>cd\<close> that has written at the times
  \<open>ts\<close>: its step and position, its collection file and its steps directory.
\<close>

definition writer_state_ok ::
  "(real \<Rightarrow> string) \<Rightarrow> real list \<Rightarrow> vwriter \<Rightarrow> vfs \<Rightarrow> bool" where
  "writer_state_ok show_real ts w fs =
     (wr_step w = length ts \<and> wr_pvd_pos w = length (pvd_head @ pvd_entries show_real ts)
      \<and> fs_files fs (get_pvd_path (wr_root w)) = Some (Text (pvd_head @ pvd_entries show_real ts @ pvd_tail))
      \<and> wr_root w @ ''/steps'' \<in> set (fs_dirs fs))"

section \<open>Lines and printed tags\<close>

lemma split_lines_line:
  assumes "nlc \<notin> set l"
  shows "split_lines (l @ nlc # rest) = l # split_lines rest"
proof -
  obtain c s where cs: "l @ nlc # rest = c # s" by (cases l) auto
  have "split_lines (l @ nlc # rest)
        = takeWhile (\<lambda>x. x \<noteq> nlc) (l @ nlc # rest) # split_lines (drop 1 (dropWhile (\<lambda>x. x \<noteq> nlc) (l @ nlc # rest)))"
    unfolding cs by (rule split_lines.simps(2))
  moreover have l: "\<forall>x\<in>set l. x \<noteq> nlc" using assms by auto
  then have "takeWhile (\<lambda>x. x \<noteq> nlc) (l @ nlc # rest) = l"
    and "dropWhile (\<lambda>x. x \<noteq> nlc) (l @ nlc # rest) = nlc # rest"
    by (simp_all add: takeWhile_append2 dropWhile_append2)
  ultimately show ?thesis by simp
qed

lemma split_lines_lines:
  "\<forall>l\<in>set ls. nlc \<notin> set l \<Longrightarrow> split_lines (concat (map (\<lambda>l. l @ [nlc]) ls)) = ls"
  by (induction ls) (simp_all add: split_lines_line)

lemma print_attr_cons:
  "print_attr (k, v) @ r = CHR '' '' # k @ CHR ''='' # dqc # v @ dqc # r"
  by (simp add: print_attr_def)

lemma parse_attrs_print:
  assumes "\<forall>a\<in>set atts. CHR ''='' \<notin> set (fst a) \<and> dqc \<notin> set (snd a)"
    and "rest = [] \<or> hd rest \<noteq> CHR '' ''"
  shows "parse_attrs (concat (map print_attr atts) @ rest) = Some (atts, rest)"
  using assms(1)
proof (induction atts)
  case Nil
  then show ?case using assms(2) by (cases rest) auto
next
  case (Cons a atts)
  obtain k v where a: "a = (k, v)" by (cases a)
  have k: "\<forall>x\<in>set k. x \<noteq> CHR ''=''" and v: "\<forall>x\<in>set v. x \<noteq> dqc" using Cons.prems a by auto
  have ih: "parse_attrs (concat (map print_attr atts) @ rest) = Some (atts, rest)" using Cons by simp
  have "dqc \<noteq> CHR ''=''" by (simp add: dqc_def)
  then show ?case
    using k v ih
    by (simp add: a print_attr_cons del: parse_attrs.simps(1))
qed


lemma attrs_stop_name:
  assumes "r = CHR ''>'' # r' \<or> r = CHR ''/'' # r'"
  shows "takeWhile (\<lambda>x. x \<notin> {CHR '' '', CHR ''>'', CHR ''/''}) (concat (map print_attr atts) @ r) = []"
    and "dropWhile (\<lambda>x. x \<notin> {CHR '' '', CHR ''>'', CHR ''/''}) (concat (map print_attr atts) @ r)
         = concat (map print_attr atts) @ r"
  using assms by (cases atts; auto simp: print_attr_def)+

lemma parse_print_tag:
  assumes "elem_name t \<noteq> []"
    and "\<forall>c\<in>set (elem_name t). c \<noteq> CHR '' '' \<and> c \<noteq> CHR ''>'' \<and> c \<noteq> CHR ''/''"
    and "\<forall>a\<in>set (attribs t). CHR ''='' \<notin> set (fst a) \<and> dqc \<notin> set (snd a)"
    and "kind t = END \<Longrightarrow> attribs t = []"
  shows "parse_tag (print_tag t) = Some t"
proof -
  obtain c cs where n: "elem_name t = c # cs" using assms(1) by (cases "elem_name t") auto
  have c: "c \<noteq> CHR ''/''" using assms(2) n by auto
  let ?Q = "\<lambda>x. x \<notin> {CHR '' '', CHR ''>'', CHR ''/''}"
  have q: "\<forall>x\<in>set (c # cs). ?Q x" using assms(2) n by auto
  let ?A = "concat (map print_attr (attribs t))"
  have pa: "parse_attrs (?A @ r) = Some (attribs t, r)" if "r = ''>'' \<or> r = ''/>''" for r
    using parse_attrs_print [OF assms(3), of r] that by auto
  show ?thesis
  proof (cases "kind t")
    case START
    have st: "takeWhile ?Q (?A @ ''>'') = []" "dropWhile ?Q (?A @ ''>'') = ?A @ ''>''"
      using attrs_stop_name [of "''>''" "[]" "attribs t"] by simp_all
    have "takeWhile ?Q ((c # cs) @ ?A @ ''>'') = c # cs" "dropWhile ?Q ((c # cs) @ ?A @ ''>'') = ?A @ ''>''"
      using q st by (simp_all add: takeWhile_append2 dropWhile_append2)
    then show ?thesis using START n c pa [of "''>''"] by (cases t) (simp add: print_tag_def parse_tag_def)
  next
    case SELF_CLOSING
    have st: "takeWhile ?Q (?A @ ''/>'') = []" "dropWhile ?Q (?A @ ''/>'') = ?A @ ''/>''"
      using attrs_stop_name [of "''/>''" "''>''" "attribs t"] by simp_all
    have "takeWhile ?Q ((c # cs) @ ?A @ ''/>'') = c # cs" "dropWhile ?Q ((c # cs) @ ?A @ ''/>'') = ?A @ ''/>''"
      using q st by (simp_all add: takeWhile_append2 dropWhile_append2)
    then show ?thesis using SELF_CLOSING n c pa [of "''/>''"] by (cases t) (simp add: print_tag_def parse_tag_def)
  next
    case END
    have "\<forall>x\<in>set (c # cs). x \<noteq> CHR ''>''" using assms(2) n by auto
    then have "takeWhile (\<lambda>x. x \<noteq> CHR ''>'') ((c # cs) @ ''>'') = c # cs"
      "dropWhile (\<lambda>x. x \<noteq> CHR ''>'') ((c # cs) @ ''>'') = ''>''"
      by (simp_all add: takeWhile_append2 dropWhile_append2)
    then show ?thesis using END n assms(4) by (cases t) (simp add: print_tag_def parse_tag_def)
  qed
qed


lemma nl_dq: "nl = [nlc]" "dq = [dqc]"
  by (simp_all add: nl_def nlc_def dq_def dqc_def)

lemma dataset_line_print: "dataset_line s k t = print_tag (dataset_tag s k t) @ [nlc]"
  by (simp add: dataset_line_def dataset_tag_def print_tag_def print_attr_def nl_dq)

lemma pvd_text_lines:
  "pvd_head @ pvd_entries s ts @ pvd_tail = concat (map (\<lambda>l. l @ [nlc]) (map print_tag (pvd_tags s ts)))"
proof -
  have e: "pvd_entries s ts
           = concat (map (\<lambda>l. l @ [nlc]) (map print_tag (map (\<lambda>(k, t). dataset_tag s k t) (zip [0..<length ts] ts))))"
  proof -
    have "map (\<lambda>(k, t). dataset_line s k t) xs
          = map (\<lambda>l. l @ [nlc]) (map print_tag (map (\<lambda>(k, t). dataset_tag s k t) xs))" for xs
      by (induction xs) (auto simp: dataset_line_print)
    then show ?thesis unfolding pvd_entries_def by (rule arg_cong [where f = concat])
  qed
  have "pvd_head = concat (map (\<lambda>l. l @ [nlc]) (map print_tag (take 2 (pvd_tags s ts))))"
    "pvd_tail = concat (map (\<lambda>l. l @ [nlc]) (map print_tag (drop (length ts + 2) (pvd_tags s ts))))"
    by (simp_all add: pvd_head_def pvd_tail_def pvd_tags_def print_tag_def print_attr_def nl_dq)
  moreover have "pvd_tags s ts = take 2 (pvd_tags s ts) @ map (\<lambda>(k, t). dataset_tag s k t) (zip [0..<length ts] ts)
                                 @ drop (length ts + 2) (pvd_tags s ts)"
    by (simp add: pvd_tags_def)
  ultimately show ?thesis using e by (metis append_assoc concat_append map_append)
qed

lemma digits_plain: "c \<in> set (to_string (int k)) \<Longrightarrow> c \<noteq> nlc \<and> c \<noteq> dqc \<and> c \<noteq> CHR ''=''"
  using nat_digits_digits [of k] by (auto simp: to_string_def is_digit_def nlc_def dqc_def)

lemma read_pvd_Some:
  "read_pvd stod (map Some tags)
   = (map (\<lambda>t. stod (attrib t ''timestep'')) (filter (\<lambda>t. elem_name t = ''DataSet'') tags),
      map (\<lambda>t. attrib t ''file'') (filter (\<lambda>t. elem_name t = ''DataSet'') tags))"
proof -
  have "[t. Some t \<leftarrow> map Some tags, elem_name t = ''DataSet''] = filter (\<lambda>t. elem_name t = ''DataSet'') tags"
    by (induction tags) auto
  then show ?thesis by (simp add: read_pvd_def Let_def)
qed

section \<open>Reading a collection back\<close>

lemma pvtu_path_plain:
  "c \<in> set (get_pvtu_path (get_rel_step_path k)) \<Longrightarrow> c \<noteq> nlc \<and> c \<noteq> dqc"
  using digits_plain [of c k]
  by (auto simp: get_pvtu_path_def get_rel_step_path_def nlc_def dqc_def)

lemma dataset_tag_parse:
  "dqc \<notin> set (s t) \<Longrightarrow> parse_tag (print_tag (dataset_tag s k t)) = Some (dataset_tag s k t)"
  using pvtu_path_plain [of _ k]
  by (intro parse_print_tag) (auto simp: dataset_tag_def dqc_def)

lemma dataset_tag_line:
  "nlc \<notin> set (s t) \<Longrightarrow> nlc \<notin> set (print_tag (dataset_tag s k t))"
  using pvtu_path_plain [of nlc k]
  by (auto simp: dataset_tag_def print_tag_def print_attr_def nlc_def dqc_def)

lemma read_pvd_collection:
  assumes "fs_files fs p = Some (Text (pvd_head @ pvd_entries s ts @ pvd_tail))"
    and "\<forall>t\<in>set ts. stod (s t) = t \<and> dqc \<notin> set (s t) \<and> nlc \<notin> set (s t)"
  shows "read_pvd_file stod p fs
         = Inr (ts, map (\<lambda>k. dir_of p @ ''/'' @ get_pvtu_path (get_rel_step_path k)) [0..<length ts])"
proof -
  let ?D = "map (\<lambda>(k, t). dataset_tag s k t) (zip [0..<length ts] ts)"
  have tz: "t \<in> set ts" if "(k, t) \<in> set (zip [0..<length ts] ts)" for k t
    using that by (rule set_zip_rightD)
  have lines: "\<forall>l\<in>set (map print_tag (pvd_tags s ts)). nlc \<notin> set l"
    using assms(2) dataset_tag_line tz
    by (fastforce simp: pvd_tags_def print_tag_def print_attr_def nlc_def dqc_def)
  have parse: "map parse_tag (map print_tag (pvd_tags s ts)) = map Some (pvd_tags s ts)"
  proof -
    have "map parse_tag (map print_tag ?D) = map Some ?D"
      using assms(2) dataset_tag_parse tz by (fastforce simp: comp_def)
    moreover have "parse_tag (print_tag t) = Some t"
      if "t \<in> set (take 2 (pvd_tags s ts) @ drop (length ts + 2) (pvd_tags s ts))" for t
      using that by (auto simp: pvd_tags_def dqc_def intro!: parse_print_tag)
    ultimately show ?thesis by (simp add: pvd_tags_def)
  qed
  have filt: "filter (\<lambda>t. elem_name t = ''DataSet'') (pvd_tags s ts) = ?D"
    by (simp add: pvd_tags_def dataset_tag_def filter_map comp_def case_prod_beta)
  have times: "map (\<lambda>t. stod (attrib t ''timestep'')) ?D = ts"
  proof -
    have "map (\<lambda>t. stod (attrib t ''timestep'')) ?D = map snd (zip [0..<length ts] ts)"
      unfolding map_map
      by (rule map_cong [OF refl]) (use assms(2) tz in \<open>auto simp: dataset_tag_def attrib_def\<close>)
    then show ?thesis by simp
  qed
  have files: "map (\<lambda>t. attrib t ''file'') ?D = map (\<lambda>k. get_pvtu_path (get_rel_step_path k)) [0..<length ts]"
  proof -
    have "map (\<lambda>t. attrib t ''file'') ?D = map (\<lambda>k. get_pvtu_path (get_rel_step_path k)) (map fst (zip [0..<length ts] ts))"
      unfolding map_map by (rule map_cong [OF refl]) (auto simp: dataset_tag_def attrib_def)
    then show ?thesis by simp
  qed
  have t: "fs_files fs p = Some (Text (concat (map (\<lambda>l. l @ [nlc]) (map print_tag (pvd_tags s ts)))))"
    using assms(1) by (simp only: pvd_text_lines)
  show ?thesis
    unfolding read_pvd_file_def t
    by (simp only: option.case vfile.case split_lines_lines [OF lines] parse read_pvd_Some filt times files
        prod.case) simp
qed

section \<open>What one write touches\<close>

lemma writer_write_frame:
  assumes "writer_write s m w t fs = Inr (w', fs')"
  shows "set (fs_dirs fs) \<subseteq> set (fs_dirs fs') \<and> wr_root w' = wr_root w \<and> wr_cell_dim w' = wr_cell_dim w
         \<and> (\<forall>p. p \<noteq> get_pvtu_path (get_step_path (wr_root w) (wr_step w))
                 \<and> p \<noteq> piece_filename (get_step_path (wr_root w) (wr_step w) @ ''/pieces/piece'') 0
                 \<and> p \<noteq> get_pvd_path (wr_root w) \<longrightarrow> fs_files fs' p = fs_files fs p)"
proof -
  obtain fs1 pos where wp: "write_parallel (get_step_path (wr_root w) (wr_step w)) m (wr_cell_dim w) fs = Inr fs1"
    and up: "update_pvd s (wr_root w) (wr_pvd_pos w) (wr_step w) t fs1 = Inr (pos, fs')"
    and w': "w' = w\<lparr>wr_pvd_pos := pos, wr_step := wr_step w + 1\<rparr>"
    using assms by (auto simp: writer_write_def sbind_eq_Inr)
  have "fs_dirs fs' = fs_dirs fs1 \<and> (\<forall>p. p \<noteq> get_pvd_path (wr_root w) \<longrightarrow> fs_files fs' p = fs_files fs1 p)"
    using up by (auto simp: update_pvd_def Let_def split: option.splits vfile.splits)
  then show ?thesis using write_parallel_Inr [OF wp] w' by auto
qed

lemma writer_state_ok_frame:
  assumes "writer_state_ok s us v fs" and "set (fs_dirs fs) \<subseteq> set (fs_dirs fs')"
    and "fs_files fs' (get_pvd_path (wr_root v)) = fs_files fs (get_pvd_path (wr_root v))"
  shows "writer_state_ok s us v fs'"
  using assms by (auto simp: writer_state_ok_def)

lemma writer_write_state:
  assumes "writer_state_ok s ts w fs" and "write_vtu m (wr_cell_dim w) = Inr vs"
  shows "\<exists>w' fs'. writer_write s m w t fs = Inr (w', fs') \<and> writer_state_ok s (ts @ [t]) w' fs'"
proof -
  have st: "wr_root w @ ''/steps'' \<in> set (fs_dirs fs)"
    "fs_files fs (get_pvd_path (wr_root w)) = Some (Text (pvd_head @ pvd_entries s ts @ pvd_tail))"
    "wr_pvd_pos w = length (pvd_head @ pvd_entries s ts)" "wr_step w = length ts"
    using assms(1) by (simp_all add: writer_state_ok_def)
  obtain w' fs' where ww: "writer_write s m w t fs = Inr (w', fs')"
    using writer_write_ok [OF st(1) refl st(2) assms(2)] by blast
  have "w' = w\<lparr>wr_pvd_pos := length (pvd_head @ pvd_entries s ts) + length (dataset_line s (wr_step w) t),
                wr_step := wr_step w + 1\<rparr>
        \<and> fs_files fs' (get_pvd_path (wr_root w))
            = Some (Text ((pvd_head @ pvd_entries s ts) @ dataset_line s (wr_step w) t @ pvd_tail))
        \<and> set (fs_dirs fs) \<subseteq> set (fs_dirs fs')"
    using writer_write_Inr [OF ww, of "pvd_head @ pvd_entries s ts"] st(2,3) by simp
  then have "writer_state_ok s (ts @ [t]) w' fs'"
    using st by (auto simp: writer_state_ok_def pvd_entries_snoc)
  then show ?thesis using ww by blast
qed

lemma plural_apart:
  assumes "i \<in> {1, 2, 3}" and "j \<in> {1, 2, 3}" and "i \<noteq> j"
  shows "get_pvd_path (r @ ''/'' @ plural_names ! j) \<noteq> get_pvd_path (r @ ''/'' @ plural_names ! i)
       \<and> get_pvd_path (r @ ''/'' @ plural_names ! j) \<noteq> get_pvtu_path (get_step_path (r @ ''/'' @ plural_names ! i) k)
       \<and> get_pvd_path (r @ ''/'' @ plural_names ! j)
           \<noteq> piece_filename (get_step_path (r @ ''/'' @ plural_names ! i) k @ ''/pieces/piece'') 0"
  using assms
  by (auto simp: plural_names_def get_pvd_path_def get_pvtu_path_def get_step_path_def get_rel_step_path_def
      piece_filename_def slash_def)

lemma own_pvd_untouched:
  "get_pvd_path r \<noteq> get_pvtu_path (get_step_path r k)
   \<and> get_pvd_path r \<noteq> piece_filename (get_step_path r k @ ''/pieces/piece'') 0"
  using pvd_path_not_step_file by simp

section \<open>One write of the full writer\<close>

lemma writer_write_keeps_other:
  assumes "writer_write s m w t fs = Inr (w', fs')" and "writer_state_ok s us v fs"
    and "wr_root w = r @ ''/'' @ plural_names ! i" and "wr_root v = r @ ''/'' @ plural_names ! j"
    and "i \<in> {1, 2, 3}" and "j \<in> {1, 2, 3}" and "i \<noteq> j"
  shows "writer_state_ok s us v fs'"
proof -
  note f = writer_write_frame [OF assms(1)]
  have ne: "get_pvd_path (wr_root v) \<noteq> get_pvtu_path (get_step_path (wr_root w) (wr_step w))
          \<and> get_pvd_path (wr_root v) \<noteq> piece_filename (get_step_path (wr_root w) (wr_step w) @ ''/pieces/piece'') 0
          \<and> get_pvd_path (wr_root v) \<noteq> get_pvd_path (wr_root w)"
    using plural_apart [OF assms(5-7), of r "wr_step w"] unfolding assms(3,4) by simp
  then have "fs_files fs' (get_pvd_path (wr_root v)) = fs_files fs (get_pvd_path (wr_root v))"
    using f by blast
  then show ?thesis using writer_state_ok_frame [OF assms(2)] f by blast
qed

lemma full_writer_write_live:
  assumes "\<forall>w\<in>set ws. wr_root w = r @ ''/'' @ plural_names ! wr_cell_dim w \<and> wr_cell_dim w \<in> {1, 2, 3}
             \<and> writer_state_ok s ts w fs \<and> (\<exists>vs. write_vtu m (wr_cell_dim w) = Inr vs)"
    and "\<forall>(v, us)\<in>set os. wr_root v = r @ ''/'' @ plural_names ! wr_cell_dim v \<and> wr_cell_dim v \<in> {1, 2, 3}
             \<and> writer_state_ok s us v fs"
    and "distinct (map wr_cell_dim ws @ map (wr_cell_dim \<circ> fst) os)"
  shows "\<exists>ws' fs'. full_writer_write s m ws t fs = Inr (ws', fs') \<and> map wr_cell_dim ws' = map wr_cell_dim ws
           \<and> (\<forall>w\<in>set ws'. wr_root w = r @ ''/'' @ plural_names ! wr_cell_dim w \<and> writer_state_ok s (ts @ [t]) w fs')
           \<and> (\<forall>(v, us)\<in>set os. writer_state_ok s us v fs')"
  using assms
proof (induction ws arbitrary: fs os)
  case Nil
  then show ?case by fastforce
next
  case (Cons w ws)
  obtain vs where vs: "write_vtu m (wr_cell_dim w) = Inr vs" and ok: "writer_state_ok s ts w fs"
    and rw: "wr_root w = r @ ''/'' @ plural_names ! wr_cell_dim w" and cw: "wr_cell_dim w \<in> {1, 2, 3}"
    using Cons.prems(1) by auto
  obtain w1 fs1 where ww: "writer_write s m w t fs = Inr (w1, fs1)" and ok1: "writer_state_ok s (ts @ [t]) w1 fs1"
    using writer_write_state [OF ok vs] by blast
  have fr: "wr_root w1 = wr_root w" "wr_cell_dim w1 = wr_cell_dim w" using writer_write_frame [OF ww] by simp_all
  have keep: "writer_state_ok s us v fs1"
    if "writer_state_ok s us v fs" "wr_root v = r @ ''/'' @ plural_names ! wr_cell_dim v"
       "wr_cell_dim v \<in> {1, 2, 3}" "wr_cell_dim v \<noteq> wr_cell_dim w" for v us
    using writer_write_keeps_other [OF ww that(1) rw that(2) cw that(3)] that(4) by auto
  have ws1: "\<forall>u\<in>set ws. wr_root u = r @ ''/'' @ plural_names ! wr_cell_dim u \<and> wr_cell_dim u \<in> {1, 2, 3}
              \<and> writer_state_ok s ts u fs1 \<and> (\<exists>vs. write_vtu m (wr_cell_dim u) = Inr vs)"
  proof
    fix u assume u: "u \<in> set ws"
    have ne: "wr_cell_dim u \<noteq> wr_cell_dim w" using Cons.prems(3) u by (auto simp: image_iff)
    have h: "wr_root u = r @ ''/'' @ plural_names ! wr_cell_dim u \<and> wr_cell_dim u \<in> {1, 2, 3}
             \<and> writer_state_ok s ts u fs \<and> (\<exists>vs. write_vtu m (wr_cell_dim u) = Inr vs)"
      using Cons.prems(1) u by simp
    then show "wr_root u = r @ ''/'' @ plural_names ! wr_cell_dim u \<and> wr_cell_dim u \<in> {1, 2, 3}
             \<and> writer_state_ok s ts u fs1 \<and> (\<exists>vs. write_vtu m (wr_cell_dim u) = Inr vs)"
      using keep [of ts u] ne by blast
  qed
  have os1: "\<forall>(v, us)\<in>set ((w1, ts @ [t]) # os). wr_root v = r @ ''/'' @ plural_names ! wr_cell_dim v
              \<and> wr_cell_dim v \<in> {1, 2, 3} \<and> writer_state_ok s us v fs1"
  proof
    fix x assume x: "x \<in> set ((w1, ts @ [t]) # os)"
    show "case x of (v, us) \<Rightarrow> wr_root v = r @ ''/'' @ plural_names ! wr_cell_dim v
              \<and> wr_cell_dim v \<in> {1, 2, 3} \<and> writer_state_ok s us v fs1"
    proof (cases "x = (w1, ts @ [t])")
      case True
      then show ?thesis using ok1 fr rw cw by simp
    next
      case False
      then obtain v us where x': "x = (v, us)" and v: "(v, us) \<in> set os" using x by (cases x) auto
      have ne: "wr_cell_dim v \<noteq> wr_cell_dim w" using Cons.prems(3) v by force
      have "wr_root v = r @ ''/'' @ plural_names ! wr_cell_dim v \<and> wr_cell_dim v \<in> {1, 2, 3}
            \<and> writer_state_ok s us v fs"
        using Cons.prems(2) v by fastforce
      then show ?thesis using keep [of us v] ne x' by simp
    qed
  qed
  have d1: "distinct (map wr_cell_dim ws @ map (wr_cell_dim \<circ> fst) ((w1, ts @ [t]) # os))"
    using Cons.prems(3) fr by (auto simp: comp_def image_iff)
  obtain ws' fs' where rest: "full_writer_write s m ws t fs1 = Inr (ws', fs')"
    and c': "map wr_cell_dim ws' = map wr_cell_dim ws"
    and a': "\<forall>u\<in>set ws'. wr_root u = r @ ''/'' @ plural_names ! wr_cell_dim u \<and> writer_state_ok s (ts @ [t]) u fs'"
    and o': "\<forall>(v, us)\<in>set ((w1, ts @ [t]) # os). writer_state_ok s us v fs'"
    using Cons.IH [OF ws1 os1 d1] by blast
  show ?case
  proof -
    have "full_writer_write s m (w # ws) t fs = Inr (w1 # ws', fs')" using ww rest by simp
    moreover have "map wr_cell_dim (w1 # ws') = map wr_cell_dim (w # ws)" using c' fr by simp
    moreover have "\<forall>u\<in>set (w1 # ws'). wr_root u = r @ ''/'' @ plural_names ! wr_cell_dim u
                     \<and> writer_state_ok s (ts @ [t]) u fs'"
      using a' o' fr rw by simp
    moreover have "\<forall>(v, us)\<in>set os. writer_state_ok s us v fs'" using o' by simp
    ultimately show ?thesis by blast
  qed
qed

section \<open>Runs of the full writer and its construction\<close>

lemma full_writer_run_live:
  assumes "\<forall>w\<in>set ws. wr_root w = r @ ''/'' @ plural_names ! wr_cell_dim w \<and> wr_cell_dim w \<in> {1, 2, 3}
             \<and> writer_state_ok s ts w fs \<and> (\<exists>vs. write_vtu m (wr_cell_dim w) = Inr vs)"
    and "distinct (map wr_cell_dim ws)"
  shows "\<exists>ws' fs'. full_writer_run s m ws us fs = Inr (ws', fs') \<and> map wr_cell_dim ws' = map wr_cell_dim ws
           \<and> (\<forall>w\<in>set ws'. writer_state_ok s (ts @ us) w fs')"
  using assms
proof (induction us arbitrary: ts ws fs)
  case Nil
  then show ?case by simp
next
  case (Cons u us)
  obtain ws1 fs1 where w1: "full_writer_write s m ws u fs = Inr (ws1, fs1)"
    and c1: "map wr_cell_dim ws1 = map wr_cell_dim ws"
    and a1: "\<forall>w\<in>set ws1. wr_root w = r @ ''/'' @ plural_names ! wr_cell_dim w \<and> writer_state_ok s (ts @ [u]) w fs1"
    using full_writer_write_live [OF Cons.prems(1), where os = "[]" and t = u] Cons.prems(2) by auto
  have same: "\<exists>w0\<in>set ws. wr_cell_dim w0 = wr_cell_dim w" if "w \<in> set ws1" for w
  proof -
    have "wr_cell_dim w \<in> set (map wr_cell_dim ws)" using that c1 by (metis image_eqI list.set_map)
    then show ?thesis by auto
  qed
  have p1: "\<forall>w\<in>set ws1. wr_root w = r @ ''/'' @ plural_names ! wr_cell_dim w \<and> wr_cell_dim w \<in> {1, 2, 3}
             \<and> writer_state_ok s (ts @ [u]) w fs1 \<and> (\<exists>vs. write_vtu m (wr_cell_dim w) = Inr vs)"
    using a1 same Cons.prems(1) by metis
  obtain ws' fs' where "full_writer_run s m ws1 us fs1 = Inr (ws', fs')" "map wr_cell_dim ws' = map wr_cell_dim ws1"
    "\<forall>w\<in>set ws'. writer_state_ok s ((ts @ [u]) @ us) w fs'"
    using Cons.IH [OF p1] Cons.prems(2) c1 by auto
  then show ?case using w1 c1 by auto
qed

lemma writer_init_frame:
  assumes "writer_init r cd fs = Inr (w, fs')"
  shows "set (fs_dirs fs) \<subseteq> set (fs_dirs fs') \<and> (\<forall>p. p \<noteq> get_pvd_path r \<longrightarrow> fs_files fs' p = fs_files fs p)"
  using assms
  by (auto simp: writer_init_def write_initial_pvd_def sbind_eq_Inr dest!: safe_mkdir_Inr write_file_Inr)

lemma writer_init_state:
  assumes "writer_init r cd fs = Inr (w, fs')"
  shows "writer_state_ok s [] w fs' \<and> wr_root w = r \<and> wr_cell_dim w = cd"
  using writer_init_Inr [OF assms] by (simp add: writer_state_ok_def pvd_entries_def)

lemma init_writers_live:
  assumes "init_writers r ds fs = Inr (ws, fs')" and "set ds \<subseteq> {1, 2, 3}" and "distinct ds"
  shows "map wr_cell_dim ws = ds
         \<and> (\<forall>w\<in>set ws. wr_root w = r @ ''/'' @ plural_names ! wr_cell_dim w \<and> writer_state_ok s [] w fs')
         \<and> set (fs_dirs fs) \<subseteq> set (fs_dirs fs')
         \<and> (\<forall>p. (\<forall>j\<in>set ds. p \<noteq> get_pvd_path (r @ ''/'' @ plural_names ! j)) \<longrightarrow> fs_files fs' p = fs_files fs p)"
  using assms
proof (induction r ds fs arbitrary: ws fs' rule: init_writers.induct)
  case (1 r fs)
  then show ?case by simp
next
  case (2 r i ds fs)
  obtain w fs1 ws1 where i: "writer_init (r @ ''/'' @ plural_names ! i) i fs = Inr (w, fs1)"
    and rest: "init_writers r ds fs1 = Inr (ws1, fs')" and ws: "ws = w # ws1"
    using "2.prems"(1) by (auto simp: sbind_eq_Inr split: prod.splits)
  have ih: "map wr_cell_dim ws1 = ds
         \<and> (\<forall>w\<in>set ws1. wr_root w = r @ ''/'' @ plural_names ! wr_cell_dim w \<and> writer_state_ok s [] w fs')
         \<and> set (fs_dirs fs1) \<subseteq> set (fs_dirs fs')
         \<and> (\<forall>p. (\<forall>j\<in>set ds. p \<noteq> get_pvd_path (r @ ''/'' @ plural_names ! j)) \<longrightarrow> fs_files fs' p = fs_files fs1 p)"
    using "2.IH" [OF i refl rest] "2.prems"(2,3) by auto
  have si: "writer_state_ok s [] w fs1" "wr_root w = r @ ''/'' @ plural_names ! i" "wr_cell_dim w = i"
    using writer_init_state [OF i] by simp_all
  have ap: "get_pvd_path (r @ ''/'' @ plural_names ! i) \<noteq> get_pvd_path (r @ ''/'' @ plural_names ! j)"
    if "j \<in> set ds" for j
    using plural_apart [of j i r 0] that "2.prems"(2,3) by auto
  have "fs_files fs' (get_pvd_path (wr_root w)) = fs_files fs1 (get_pvd_path (wr_root w))"
    using ih ap si(2) by auto
  then have "writer_state_ok s [] w fs'" using writer_state_ok_frame [OF si(1)] ih by blast
  moreover note fr = writer_init_frame [OF i]
  ultimately show ?case using ih si ws by auto
qed

section \<open>Properties of the time series\<close>

text \<open>
  C28: a \<open>FullWriter\<close> built on a mesh of dimension at most three whose cell
  files can be written never gets stuck: any run of \<open>FullWriter::write(time)\<close>
  calls succeeds, keeps one writer per dimension from edges up, and leaves every
  writer's collection listing all the times of the run, in order.
\<close>

theorem full_writer_always_writes:
  assumes "full_writer_init m r fs0 = Inr (ws, fs)" and "vm_dim m \<le> 3"
    and "\<forall>i\<in>{1..vm_dim m}. \<exists>vs. write_vtu m i = Inr vs"
  shows "\<exists>ws' fs'. full_writer_run s m ws ts fs = Inr (ws', fs') \<and> map wr_cell_dim ws' = [1..<vm_dim m + 1]
           \<and> (\<forall>w\<in>set ws'. wr_step w = length ts
                 \<and> fs_files fs' (get_pvd_path (wr_root w)) = Some (Text (pvd_head @ pvd_entries s ts @ pvd_tail)))"
proof -
  obtain fs1 where iw: "init_writers r [1..<vm_dim m + 1] fs1 = Inr (ws, fs)"
    using assms(1) by (auto simp: full_writer_init_def sbind_eq_Inr)
  have ds: "set [1..<vm_dim m + 1] \<subseteq> {1, 2, 3}" using assms(2) by auto
  note init = init_writers_live [OF iw ds distinct_upt, of s]
  have cd: "wr_cell_dim w \<in> {1..vm_dim m}" if "w \<in> set ws" for w
  proof -
    have "wr_cell_dim w \<in> set (map wr_cell_dim ws)" using that by simp
    then show ?thesis using init by auto
  qed
  have p: "\<forall>w\<in>set ws. wr_root w = r @ ''/'' @ plural_names ! wr_cell_dim w \<and> wr_cell_dim w \<in> {1, 2, 3}
             \<and> writer_state_ok s [] w fs \<and> (\<exists>vs. write_vtu m (wr_cell_dim w) = Inr vs)"
    using init cd assms(2,3) by fastforce
  have "distinct (map wr_cell_dim ws)" using init by simp
  then obtain ws' fs' where "full_writer_run s m ws ts fs = Inr (ws', fs')"
    "map wr_cell_dim ws' = map wr_cell_dim ws" "\<forall>w\<in>set ws'. writer_state_ok s ([] @ ts) w fs'"
    using full_writer_run_live [OF p] by blast
  then show ?thesis using init by (auto simp: writer_state_ok_def)
qed

text \<open>
  C29: the collection of a \<open>Writer\<close> reads back with \<open>read_pvd\<close>: when the
  printed times contain no quote or newline and \<open>std::stod\<close> reads each back,
  the times are the ones written, in order, and the index paths are those of
  the step directories \<open>write_parallel\<close> filled.
\<close>

theorem read_pvd_after_writes:
  assumes "writer_reach s m r cd fs0 (w, fs) ts"
    and "\<forall>t\<in>set ts. stod (s t) = t \<and> dqc \<notin> set (s t) \<and> nlc \<notin> set (s t)"
  shows "read_pvd_file stod (get_pvd_path r) fs = Inr (ts, map (\<lambda>k. get_pvtu_path (get_step_path r k)) [0..<length ts])"
proof -
  have "fs_files fs (get_pvd_path r) = Some (Text (pvd_head @ pvd_entries s ts @ pvd_tail))"
    using writer_reach_state [OF assms(1)] by simp
  moreover have "dir_of (get_pvd_path r) = r"
    using dir_of_append [of "''steps.pvd''" r] by (simp add: get_pvd_path_def slash_def)
  moreover have "r @ ''/'' @ get_pvtu_path (get_rel_step_path k) = get_pvtu_path (get_step_path r k)" for k
    by (simp add: get_pvtu_path_def get_step_path_def slash_def)
  ultimately show ?thesis using read_pvd_collection [OF _ assms(2)] by simp
qed


theorem full_writer_always_writes_witness:
  "\<exists>ws fs. full_writer_init tri_vmesh ''out'' \<lparr>fs_dirs = [], fs_files = Map.empty\<rparr> = Inr (ws, fs)
     \<and> (\<exists>ws' fs'. full_writer_run (\<lambda>r. to_string \<lfloor>r\<rfloor>) tri_vmesh ws [0, 1] fs = Inr (ws', fs')
                   \<and> map wr_cell_dim ws' = [1, 2])"
proof -
  have "\<exists>x. full_writer_init tri_vmesh ''out'' \<lparr>fs_dirs = [], fs_files = Map.empty\<rparr> = Inr x"
    by (simp add: full_writer_init_def safe_mkdir_def parent_ok_def dir_of_def writer_init_def
        write_initial_pvd_def write_file_def get_pvd_path_def slash_def tri_vmesh_def plural_names_def upt_rec)
  then obtain ws fs where i: "full_writer_init tri_vmesh ''out'' \<lparr>fs_dirs = [], fs_files = Map.empty\<rparr> = Inr (ws, fs)"
    by auto
  have d: "vm_dim tri_vmesh = 2" by (simp add: tri_vmesh_def)
  have v: "\<forall>i\<in>{1..vm_dim tri_vmesh}. \<exists>vs. write_vtu tri_vmesh i = Inr vs"
    by (simp add: write_vtu_def get_tag_def tri_vmesh_def find_tag_def)
  obtain ws' fs' where "full_writer_run (\<lambda>r. to_string \<lfloor>r\<rfloor>) tri_vmesh ws [0, 1] fs = Inr (ws', fs')"
    "map wr_cell_dim ws' = [1..<vm_dim tri_vmesh + 1]"
    using full_writer_always_writes [OF i _ v, of "\<lambda>r. to_string \<lfloor>r\<rfloor>" "[0, 1]"] d by auto
  then show ?thesis using i d by (auto simp: upt_rec)
qed

theorem read_pvd_after_writes_witness:
  "\<exists>w fs. writer_reach (\<lambda>r. to_string \<lfloor>r\<rfloor>) tri_vmesh ''out'' 2 \<lparr>fs_dirs = [], fs_files = Map.empty\<rparr> (w, fs) [0, 1]
     \<and> read_pvd_file (\<lambda>x. case stoi x of Inr i \<Rightarrow> real_of_int i | Inl _ \<Rightarrow> 0) (get_pvd_path ''out'') fs
         = Inr ([0, 1], map (\<lambda>k. get_pvtu_path (get_step_path ''out'' k)) [0..<2])"
proof -
  let ?s = "\<lambda>r::real. to_string \<lfloor>r\<rfloor>" and ?fs = "\<lparr>fs_dirs = [], fs_files = Map.empty\<rparr>"
  let ?stod = "\<lambda>x. case stoi x of Inr i \<Rightarrow> real_of_int i | Inl _ \<Rightarrow> 0"
  have "\<exists>x. writer_init ''out'' 2 ?fs = Inr x"
    by (simp add: writer_init_def safe_mkdir_def parent_ok_def dir_of_def write_initial_pvd_def
        write_file_def get_pvd_path_def slash_def)
  then obtain w0 fs0 where "writer_init ''out'' 2 ?fs = Inr (w0, fs0)" by auto
  then have r0: "writer_reach ?s tri_vmesh ''out'' 2 ?fs (w0, fs0) []" by (rule writer_reach.start)
  obtain vs where vs: "write_vtu tri_vmesh 2 = Inr vs"
    by (auto simp: write_vtu_def get_tag_def tri_vmesh_def find_tag_def)
  have next_step: "\<exists>w' fs'. writer_reach ?s tri_vmesh ''out'' 2 ?fs (w', fs') (ts @ [t])"
    if "writer_reach ?s tri_vmesh ''out'' 2 ?fs (w, fs) ts" for w fs ts t
  proof -
    note st = writer_reach_state [OF that]
    obtain w' fs' where "writer_write ?s tri_vmesh w t fs = Inr (w', fs')"
      using writer_write_ok [of "''out''" fs w _ tri_vmesh vs ?s t] st vs by auto
    then show ?thesis using writer_reach.step [OF that] by blast
  qed
  obtain w1 fs1 where r1: "writer_reach ?s tri_vmesh ''out'' 2 ?fs (w1, fs1) [0]"
    using next_step [OF r0, of 0] by auto
  obtain w2 fs2 where r2: "writer_reach ?s tri_vmesh ''out'' 2 ?fs (w2, fs2) [0, 1]"
    using next_step [OF r1, of 1] by auto
  have h: "\<forall>t\<in>set [0, 1::real]. ?stod (?s t) = t \<and> dqc \<notin> set (?s t) \<and> nlc \<notin> set (?s t)"
    using stoi_to_string [of 0] stoi_to_string [of 1] digits_plain [of _ 0] digits_plain [of _ 1] by auto
  show ?thesis using read_pvd_after_writes [OF r2 h] r2 by (auto simp: upt_rec)
qed

end
