(* ===== verification/VtkParallel.thy ===== *)
theory VtkParallel
  imports VtkSeries
begin

text \<open>
  \<open>write_parallel\<close> and \<open>read_parallel\<close> of \<open>vtk.cpp\<close> on a communicator of
  several ranks. Each rank runs its own program of file-system actions, with the
  two barriers of \<open>write_parallel\<close> as synchronisation points; a run is any
  interleaving of the ranks' actions in which no rank passes a barrier before all
  have reached it (\<open>spmd_step\<close>). The order the code promises, rank by rank
  between barriers, is the reference run \<open>spmd_seq\<close>. Actions that commute
  (writes of different files) make every run end where the reference run ends.
\<close>

section \<open>The actions of a rank\<close>

datatype pact =
    Mkdir string
  | Write_pvtu string vmesh nat string
  | Write_vtu string vmesh nat
  | Init_pvd string
  | Update_pvd "real \<Rightarrow> string" string nat nat real
  | Barrier

text \<open>
  What one action does to the file system; \<open>comm->barrier()\<close> changes nothing.
  \<open>Init_pvd\<close> and \<open>Update_pvd\<close> are the collection calls of \<open>Writer\<close>
  (\<open>write_initial_pvd\<close>, \<open>update_pvd\<close>); the position they return is kept by
  the writer of rank 0 (\<open>VtkWriterRanks\<close>).
\<close>

fun run_pact :: "pact \<Rightarrow> vfs \<Rightarrow> error + vfs" where
  "run_pact (Mkdir p) fs = safe_mkdir p fs"
| "run_pact (Write_pvtu f m cd pp) fs = write_pvtu_file f m cd pp fs"
| "run_pact (Write_vtu f m cd) fs = write_vtu_file f m cd fs"
| "run_pact (Init_pvd root_path) fs = sbind (write_initial_pvd root_path fs) (\<lambda>(_, fs). Inr fs)"
| "run_pact (Update_pvd show_real root_path pos step time) fs =
     sbind (update_pvd show_real root_path pos step time fs) (\<lambda>(_, fs). Inr fs)"
| "run_pact Barrier fs = Inr fs"

fun run_pacts :: "pact list \<Rightarrow> vfs \<Rightarrow> error + vfs" where
  "run_pacts [] fs = Inr fs"
| "run_pacts (a # as) fs = sbind (run_pact a fs) (run_pacts as)"

text \<open>
  \<open>write_parallel(path, mesh, cell_dim)\<close> on rank \<open>rank\<close>: rank 0 makes the
  directories and writes the index, every rank writes its own piece.
\<close>

definition write_parallel_prog :: "string \<Rightarrow> vmesh \<Rightarrow> nat \<Rightarrow> nat \<Rightarrow> pact list" where
  "write_parallel_prog path m cd rank =
     (let piecesdir = path @ ''/pieces''; piecepath = piecesdir @ ''/piece''; pvtuname = get_pvtu_path path
      in (if rank = 0 then [Mkdir path] else []) @ [Barrier]
         @ (if rank = 0 then [Mkdir piecesdir] else []) @ [Barrier]
         @ (if rank = 0 then [Write_pvtu pvtuname m cd ''pieces/piece''] else [])
         @ [Write_vtu (piece_filename piecepath rank) m cd])"

text \<open>The programs of all ranks; rank \<open>r\<close> holds the part \<open>ms ! r\<close> of the mesh.\<close>

definition write_parallel_progs :: "string \<Rightarrow> vmesh list \<Rightarrow> nat \<Rightarrow> pact list list" where
  "write_parallel_progs path ms cd = map (\<lambda>r. write_parallel_prog path (ms ! r) cd r) [0..<length ms]"

section \<open>Runs of several ranks\<close>

text \<open>
  A step runs the next action of one rank, or, when every rank waits at a
  barrier, passes the barrier on all ranks at once. An action that fails aborts
  the run (\<open>spmd_abort\<close>).
\<close>

inductive spmd_step :: "pact list list \<times> vfs \<Rightarrow> pact list list \<times> vfs \<Rightarrow> bool" where
  local: "r < length ps \<Longrightarrow> ps ! r = a # rest \<Longrightarrow> a \<noteq> Barrier \<Longrightarrow> run_pact a fs = Inr fs'
          \<Longrightarrow> spmd_step (ps, fs) (ps[r := rest], fs')"
| barrier: "ps \<noteq> [] \<Longrightarrow> \<forall>p\<in>set ps. p \<noteq> [] \<and> hd p = Barrier \<Longrightarrow> spmd_step (ps, fs) (map tl ps, fs)"

inductive spmd_abort :: "pact list list \<times> vfs \<Rightarrow> error \<Rightarrow> bool" where
  "r < length ps \<Longrightarrow> ps ! r = a # rest \<Longrightarrow> a \<noteq> Barrier \<Longrightarrow> run_pact a fs = Inl e
   \<Longrightarrow> spmd_abort (ps, fs) e"

text \<open>The actions of a program up to its next barrier, and what follows that barrier.\<close>

definition seg :: "pact list \<Rightarrow> pact list" where
  "seg p = takeWhile (\<lambda>a. a \<noteq> Barrier) p"

definition after_seg :: "pact list \<Rightarrow> pact list" where
  "after_seg p = drop 1 (dropWhile (\<lambda>a. a \<noteq> Barrier) p)"

text \<open>
  The reference run: between two barriers the ranks act one after the other in
  rank order. Ranks that disagree on the number of barriers deadlock.
\<close>

function spmd_seq :: "pact list list \<Rightarrow> vfs \<Rightarrow> error + vfs" where
  "spmd_seq ps fs =
     sbind (run_pacts (concat (map seg ps)) fs) (\<lambda>fs'.
       if list_all (\<lambda>p. Barrier \<notin> set p) ps then Inr fs'
       else if list_all (\<lambda>p. Barrier \<in> set p) ps then spmd_seq (map after_seg ps) fs'
       else Inl (Fail ''deadlock''))"
  by pat_completeness auto

termination
proof (relation "measure (\<lambda>(ps, fs). sum_list (map length ps))")
  fix ps :: "pact list list" and fs fs' :: vfs
  assume nb: "\<not> list_all (\<lambda>p. Barrier \<notin> set p) ps" and b: "list_all (\<lambda>p. Barrier \<in> set p) ps"
  have le: "length (after_seg p) < length p" if "Barrier \<in> set p" for p
    using that length_dropWhile_le [of "\<lambda>a. a \<noteq> Barrier" p]
    by (cases "dropWhile (\<lambda>a. a \<noteq> Barrier) p") (auto simp: after_seg_def dropWhile_eq_Nil_conv)
  have "ps \<noteq> []" using nb by auto
  then have "sum_list (map (\<lambda>p. length (after_seg p)) ps) < sum_list (map length ps)"
    using b le by (intro sum_list_strict_mono) (auto simp: list_all_iff)
  then show "((map after_seg ps, fs'), ps, fs) \<in> measure (\<lambda>(ps, fs). sum_list (map length ps))"
    by (simp add: comp_def)
qed simp

section \<open>Independent actions\<close>

text \<open>
  Two actions commute when running them in either order succeeds with the same
  file system, or fails both ways.
\<close>

definition commute :: "pact \<Rightarrow> pact \<Rightarrow> bool" where
  "commute a b =
     (\<forall>fs F. (sbind (run_pact a fs) (run_pact b) = Inr F) = (sbind (run_pact b fs) (run_pact a) = Inr F))"

text \<open>The actions of a program between its \<open>k\<close>-th and \<open>k+1\<close>-st barrier.\<close>

definition phase :: "nat \<Rightarrow> pact list \<Rightarrow> pact list" where
  "phase k p = seg ((after_seg ^^ k) p)"

text \<open>Programs whose ranks act independently between any two barriers.\<close>

definition indep :: "pact list list \<Rightarrow> bool" where
  "indep ps =
     (\<forall>k r r'. r < length ps \<longrightarrow> r' < length ps \<longrightarrow> r \<noteq> r' \<longrightarrow>
        (\<forall>a\<in>set (phase k (ps ! r)). \<forall>b\<in>set (phase k (ps ! r')). commute a b))"

text \<open>The file an action writes, and what it writes there.\<close>

fun pact_write :: "pact \<Rightarrow> (string \<times> (error + vfile)) option" where
  "pact_write (Write_pvtu f m cd pp) = Some (f, Inr (Items (write_pvtu m cd pp)))"
| "pact_write (Write_vtu f m cd) = Some (f, sbind (write_vtu m cd) (\<lambda>ts. Inr (Items ts)))"
| "pact_write (Init_pvd r) = Some (get_pvd_path r, Inr (Text (pvd_head @ pvd_tail)))"
| "pact_write _ = None"

text \<open>
  Two ranks holding one triangle each of the unit square, with global vertex
  numbers and owners.
\<close>

definition square_part :: "nat \<Rightarrow> vmesh" where
  "square_part r =
     \<lparr>vm_dim = 2, vm_nents = (\<lambda>d. [3, 3, 1, 0] ! d), vm_verts_of = (\<lambda>d. if d = 2 then [0, 1, 2] else []),
      vm_tags = (\<lambda>d. if d = 0 then
                        [\<lparr>tg_name = ''coordinates'', tg_ncomps = 2,
                          tg_data = AF64 (if r = 0 then [0, 0, 1, 0, 0, 1] else [1, 0, 1, 1, 0, 1]), tg_viz = True\<rparr>,
                         \<lparr>tg_name = ''global'', tg_ncomps = 1,
                          tg_data = AI64 (if r = 0 then [0, 1, 2] else [1, 3, 2]), tg_viz = True\<rparr>]
                      else []),
      vm_owners = (\<lambda>d. if d = 0 then (if r = 0 then [0, 0, 0] else [0, 1, 0])
                         else if d = 2 then [word_of_nat r] else []),
      vm_comm_size = 2\<rparr>"

declare spmd_seq.simps [simp del]

section \<open>Runs and the reference run\<close>

inductive_cases spmd_stepE: "spmd_step (ps, fs) s'"
inductive_cases spmd_abortE: "spmd_abort (ps, fs) e"

lemma run_pacts_Nil_fun [simp]: "run_pacts [] = Inr"
  by (simp add: fun_eq_iff)

lemma run_pacts_append: "run_pacts (xs @ ys) fs = sbind (run_pacts xs fs) (run_pacts ys)"
proof (induction xs arbitrary: fs)
  case (Cons a xs)
  have "run_pacts (xs @ ys) = (\<lambda>fs. sbind (run_pacts xs fs) (run_pacts ys))"
    using Cons.IH by (simp add: fun_eq_iff)
  then show ?case by (simp add: sbind_assoc)
qed simp

lemma seg_Cons [simp]: "a \<noteq> Barrier \<Longrightarrow> seg (a # p) = a # seg p"
  by (simp add: seg_def)

lemma after_seg_Cons [simp]: "a \<noteq> Barrier \<Longrightarrow> after_seg (a # p) = after_seg p"
  by (simp add: after_seg_def)

lemma seg_Barrier [simp]: "seg (Barrier # p) = []" and after_seg_Barrier [simp]: "after_seg (Barrier # p) = p"
  by (simp_all add: seg_def after_seg_def)

lemma seg_Nil [simp]: "seg [] = []" and after_seg_Nil [simp]: "after_seg [] = []"
  by (simp_all add: seg_def after_seg_def)

lemma seg_hd_Barrier: "p = [] \<or> hd p = Barrier \<Longrightarrow> seg p = []"
  by (cases p) (auto simp: seg_def)

lemma indepD:
  "indep ps \<Longrightarrow> r < length ps \<Longrightarrow> r' < length ps \<Longrightarrow> r \<noteq> r' \<Longrightarrow>
   a \<in> set (phase k (ps ! r)) \<Longrightarrow> b \<in> set (phase k (ps ! r')) \<Longrightarrow> commute a b"
  by (simp add: indep_def)

lemma hd_Barrier: "p \<noteq> [] \<and> hd p = Barrier \<longleftrightarrow> (\<exists>q. p = Barrier # q)"
  by (cases p) auto

text \<open>An action moves to the front past actions it commutes with.\<close>

lemma run_pacts_move:
  assumes "\<forall>b\<in>set xs. commute a b"
  shows "(run_pacts (xs @ a # ys) fs = Inr F) = (run_pacts (a # xs @ ys) fs = Inr F)"
  using assms
proof (induction xs arbitrary: fs)
  case Nil
  then show ?case by simp
next
  case (Cons b xs)
  have c: "(sbind (run_pact b fs) (run_pact a) = Inr G) = (sbind (run_pact a fs) (run_pact b) = Inr G)" for G
    using Cons.prems by (simp add: commute_def)
  have "(run_pacts ((b # xs) @ a # ys) fs = Inr F)
        = (\<exists>f1. run_pact b fs = Inr f1 \<and> run_pacts (a # xs @ ys) f1 = Inr F)"
    using Cons by (simp add: sbind_eq_Inr)
  also have "\<dots> = (\<exists>f2. sbind (run_pact b fs) (run_pact a) = Inr f2 \<and> run_pacts (xs @ ys) f2 = Inr F)"
    by (auto simp: sbind_eq_Inr)
  also have "\<dots> = (\<exists>f2. sbind (run_pact a fs) (run_pact b) = Inr f2 \<and> run_pacts (xs @ ys) f2 = Inr F)"
    using c by simp
  also have "\<dots> = (run_pacts (a # (b # xs) @ ys) fs = Inr F)"
    by (auto simp: sbind_eq_Inr)
  finally show ?case .
qed

lemma concat_map_seg_split:
  "r < length ps \<Longrightarrow>
   concat (map seg ps) = concat (map seg (take r ps)) @ seg (ps ! r) @ concat (map seg (drop (Suc r) ps))"
  by (subst id_take_nth_drop [of r ps]) simp_all

lemma map_update_same: "r < length ps \<Longrightarrow> f rest = f (ps ! r) \<Longrightarrow> map f (ps[r := rest]) = map f ps"
  by (auto simp: list_eq_iff_nth_eq nth_list_update)

lemma list_all_update_same: "r < length ps \<Longrightarrow> P rest = P (ps ! r) \<Longrightarrow> list_all P (ps[r := rest]) = list_all P ps"
  by (auto simp: list_all_length nth_list_update)

text \<open>The actions of lower ranks before the next barrier.\<close>

lemma indep_before:
  assumes "indep ps" and "r < length ps" and "ps ! r = a # rest" and "a \<noteq> Barrier"
  shows "\<forall>b\<in>set (concat (map seg (take r ps))). commute a b"
proof
  fix b assume "b \<in> set (concat (map seg (take r ps)))"
  then obtain p where "p \<in> set (take r ps)" and bp: "b \<in> set (seg p)" by auto
  then obtain i where i: "i < r" and "p = ps ! i" by (auto simp: in_set_conv_nth)
  then have b: "b \<in> set (seg (ps ! i))" using bp by simp
  have "a \<in> set (phase 0 (ps ! r))" using assms(3,4) by (simp add: phase_def)
  moreover have "b \<in> set (phase 0 (ps ! i))" using b by (simp add: phase_def)
  moreover have "i < length ps" "i \<noteq> r" using i assms(2) by simp_all
  ultimately show "commute a b" using assms(1,2) unfolding indep_def by blast
qed

text \<open>A local step keeps the outcome of the reference run.\<close>

lemma spmd_seq_local:
  assumes "r < length ps" and "ps ! r = a # rest" and "a \<noteq> Barrier" and "run_pact a fs = Inr fs'"
    and "\<forall>b\<in>set (concat (map seg (take r ps))). commute a b" and "spmd_seq ps fs = Inr F"
  shows "spmd_seq (ps[r := rest]) fs' = Inr F"
proof -
  let ?XS = "concat (map seg (take r ps))" and ?ZS = "concat (map seg (drop (Suc r) ps))"
  have split: "concat (map seg ps) = ?XS @ a # seg rest @ ?ZS"
    using concat_map_seg_split [OF assms(1)] assms(2,3) by simp
  have split': "concat (map seg (ps[r := rest])) = ?XS @ seg rest @ ?ZS"
    using concat_map_seg_split [of r "ps[r := rest]"] assms(1) by simp
  have bar: "(Barrier \<in> set rest) = (Barrier \<in> set (ps ! r))" using assms(2,3) by simp
  have k1: "list_all (\<lambda>p. Barrier \<notin> set p) (ps[r := rest]) = list_all (\<lambda>p. Barrier \<notin> set p) ps"
    and k2: "list_all (\<lambda>p. Barrier \<in> set p) (ps[r := rest]) = list_all (\<lambda>p. Barrier \<in> set p) ps"
    using list_all_update_same [OF assms(1)] bar by simp_all
  have k3: "map after_seg (ps[r := rest]) = map after_seg ps"
    using map_update_same [OF assms(1), of after_seg rest] assms(2,3) by simp
  obtain G where G: "run_pacts (?XS @ a # seg rest @ ?ZS) fs = Inr G"
    and K: "(if list_all (\<lambda>p. Barrier \<notin> set p) ps then Inr G
             else if list_all (\<lambda>p. Barrier \<in> set p) ps then spmd_seq (map after_seg ps) G
             else Inl (Fail ''deadlock'')) = Inr F"
    using assms(6) split by (subst (asm) spmd_seq.simps) (auto simp: sbind_eq_Inr)
  have "run_pacts (a # ?XS @ seg rest @ ?ZS) fs = Inr G"
    using G run_pacts_move [OF assms(5)] by simp
  then have "run_pacts (?XS @ seg rest @ ?ZS) fs' = Inr G" using assms(4) by simp
  then show ?thesis
    using K by (subst spmd_seq.simps) (auto simp: split' k1 k2 k3 split: if_splits)
qed

lemma spmd_seq_barrier:
  assumes "ps \<noteq> []" and "\<forall>p\<in>set ps. p \<noteq> [] \<and> hd p = Barrier"
  shows "spmd_seq ps fs = spmd_seq (map tl ps) fs"
proof -
  have b: "\<forall>p\<in>set ps. \<exists>q. p = Barrier # q" using assms(2) hd_Barrier by blast
  then have c: "concat (map seg ps) = []" and m: "map after_seg ps = map tl ps"
    by auto
  have l1: "list_all (\<lambda>p. Barrier \<in> set p) ps" and l2: "\<not> list_all (\<lambda>p. Barrier \<notin> set p) ps"
    using b assms(1) by (auto simp: list_all_iff neq_Nil_conv)
  show ?thesis
    by (subst spmd_seq.simps) (simp only: c m l1 l2 run_pacts.simps sbind_Inr if_True if_False)
qed

lemma phase_Suc: "phase (Suc k) p = phase k (after_seg p)"
  by (simp add: phase_def funpow_swap1)

lemma phase_Cons_sub: "a \<noteq> Barrier \<Longrightarrow> set (phase k p) \<subseteq> set (phase k (a # p))"
  by (cases k) (auto simp: phase_Suc, simp add: phase_def)

lemma phase_tl: "p \<noteq> [] \<Longrightarrow> hd p = Barrier \<Longrightarrow> phase k (tl p) = phase (Suc k) p"
  by (cases p) (simp_all add: phase_Suc)

lemma indep_step:
  assumes "spmd_step (ps, fs) (ps', fs')" and "indep ps"
  shows "indep ps'"
  using assms(1)
proof (cases rule: spmd_step.cases)
  case (local r a rest)
  have sub: "set (phase k (ps' ! l)) \<subseteq> set (phase k (ps ! l))" if "l < length ps" for k l
    using local phase_Cons_sub [of a k rest] that by (cases "l = r") auto
  show ?thesis
    unfolding indep_def
  proof (intro allI impI ballI)
    fix k i j x y
    assume a: "i < length ps'" "j < length ps'" "i \<noteq> j" "x \<in> set (phase k (ps' ! i))"
      "y \<in> set (phase k (ps' ! j))"
    have l: "length ps' = length ps" using local by simp
    have "x \<in> set (phase k (ps ! i))" "y \<in> set (phase k (ps ! j))" using a sub l by auto
    then show "commute x y" using indepD [OF assms(2)] a l by simp
  qed
next
  case barrier
  then show ?thesis using assms(2) phase_tl by (auto simp: indep_def)
qed

text \<open>The next action of a rank succeeds whenever the reference run does.\<close>

lemma spmd_seq_head_ok:
  assumes "indep ps" and "spmd_seq ps fs = Inr F"
    and "r < length ps" and "ps ! r = a # rest" and "a \<noteq> Barrier"
  shows "\<exists>fs'. run_pact a fs = Inr fs'"
proof -
  let ?XS = "concat (map seg (take r ps))" and ?ZS = "concat (map seg (drop (Suc r) ps))"
  have "concat (map seg ps) = ?XS @ a # seg rest @ ?ZS"
    using concat_map_seg_split [OF assms(3)] assms(4,5) by simp
  then obtain G where "run_pacts (?XS @ a # seg rest @ ?ZS) fs = Inr G"
    using assms(2) by (subst (asm) spmd_seq.simps) (auto simp: sbind_eq_Inr)
  then have "run_pacts (a # ?XS @ seg rest @ ?ZS) fs = Inr G"
    using run_pacts_move [OF indep_before [OF assms(1,3,4,5)]] by simp
  then show ?thesis by (auto simp: sbind_eq_Inr)
qed

lemma spmd_seq_done: "list_all (\<lambda>p. p = []) ps \<Longrightarrow> spmd_seq ps fs = Inr fs"
proof -
  assume e: "list_all (\<lambda>p. p = []) ps"
  then have c: "concat (map seg ps) = []" and l: "list_all (\<lambda>p. Barrier \<notin> set p) ps"
    by (auto simp: list_all_iff)
  show ?thesis by (subst spmd_seq.simps) (simp only: c l run_pacts.simps sbind_Inr if_True)
qed

lemma spmd_step_seq:
  assumes "spmd_step (ps, fs) (ps', fs')" and "indep ps" and "spmd_seq ps fs = Inr F"
  shows "indep ps' \<and> spmd_seq ps' fs' = Inr F"
  using assms(1)
proof (cases rule: spmd_step.cases)
  case (local r a rest)
  then show ?thesis
    using indep_step [OF assms(1,2)] spmd_seq_local [OF _ _ _ _ indep_before [OF assms(2)] assms(3)]
    by simp
next
  case barrier
  then show ?thesis using indep_step [OF assms(1,2)] spmd_seq_barrier assms(3) by simp
qed

lemma spmd_reach_seq:
  assumes "spmd_step\<^sup>*\<^sup>* s0 s" and "indep (fst s0)" and "spmd_seq (fst s0) (snd s0) = Inr F"
  shows "indep (fst s) \<and> spmd_seq (fst s) (snd s) = Inr F"
  using assms
proof (induction rule: rtranclp_induct)
  case (step y z)
  then show ?case using spmd_step_seq [of "fst y" "snd y" "fst z" "snd z"] by simp
qed simp

lemma spmd_step_measure:
  assumes "spmd_step (ps, fs) (ps', fs')"
  shows "length ps' = length ps \<and> sum_list (map length ps') < sum_list (map length ps)"
  using assms
proof (cases rule: spmd_step.cases)
  case (local r a rest)
  define A B where "A = take r ps" and "B = drop (Suc r) ps"
  have p: "ps = A @ (a # rest) # B"
    using local id_take_nth_drop [of r ps] by (simp add: A_def B_def)
  have p': "ps' = A @ rest # B"
    using local upd_conv_take_nth_drop [of r ps rest] by (simp add: A_def B_def)
  have "length (A @ rest # B) = length (A @ (a # rest) # B)
        \<and> sum_list (map length (A @ rest # B)) < sum_list (map length (A @ (a # rest) # B))"
    by simp
  then show ?thesis by (simp only: p p')
next
  case barrier
  then have "sum_list (map (\<lambda>p. length (tl p)) ps) < sum_list (map length ps)"
    by (intro sum_list_strict_mono) auto
  then show ?thesis using barrier by (simp add: comp_def)
qed

lemma spmd_progress:
  assumes "indep ps" and "spmd_seq ps fs = Inr F" and "\<not> list_all (\<lambda>p. p = []) ps"
  shows "\<exists>s'. spmd_step (ps, fs) s'"
proof (cases "\<exists>r<length ps. ps ! r \<noteq> [] \<and> hd (ps ! r) \<noteq> Barrier")
  case True
  then obtain r a rest where r: "r < length ps" "ps ! r = a # rest" "a \<noteq> Barrier"
    by (metis list.collapse)
  then obtain fs' where "run_pact a fs = Inr fs'" using spmd_seq_head_ok [OF assms(1,2)] by blast
  then show ?thesis using spmd_step.local [OF r] by blast
next
  case False
  then have hb: "\<forall>p\<in>set ps. p = [] \<or> hd p = Barrier" by (auto simp: in_set_conv_nth)
  obtain p1 where p1: "p1 \<in> set ps" "p1 \<noteq> []" using assms(3) by (auto simp: list_all_iff)
  have ne: "\<forall>p\<in>set ps. p \<noteq> []"
  proof (rule ccontr)
    assume "\<not> (\<forall>p\<in>set ps. p \<noteq> [])"
    then have "[] \<in> set ps" by auto
    then have l2: "\<not> list_all (\<lambda>p. Barrier \<in> set p) ps" unfolding list_all_iff by fastforce
    have "Barrier \<in> set p1" using p1 hb by (metis list.set_sel(1))
    then have l1: "\<not> list_all (\<lambda>p. Barrier \<notin> set p) ps" using p1 by (auto simp: list_all_iff)
    have "\<forall>p\<in>set ps. seg p = []" using hb seg_hd_Barrier by blast
    then have c: "concat (map seg ps) = []" by simp
    have "spmd_seq ps fs = Inl (Fail ''deadlock'')"
      by (subst spmd_seq.simps) (simp only: c l1 l2 run_pacts.simps sbind_Inr if_False)
    then show False using assms(2) by simp
  qed
  have "ps \<noteq> []" using p1 by auto
  then show ?thesis using spmd_step.barrier [of ps] hb ne by blast
qed

text \<open>From a state that agrees with the reference run, every rank can finish.\<close>

lemma spmd_completes:
  assumes "indep ps" and "spmd_seq ps fs = Inr F"
  shows "spmd_step\<^sup>*\<^sup>* (ps, fs) (replicate (length ps) [], F)"
  using assms
proof (induction "sum_list (map length ps)" arbitrary: ps fs rule: less_induct)
  case less
  show ?case
  proof (cases "list_all (\<lambda>p. p = []) ps")
    case True
    then have "ps = replicate (length ps) []" by (simp add: list_all_iff replicate_length_same)
    moreover have "fs = F" using spmd_seq_done [OF True] less.prems(2) by simp
    ultimately show ?thesis by simp
  next
    case False
    obtain ps' fs' where st: "spmd_step (ps, fs) (ps', fs')"
      using spmd_progress [OF less.prems False] by auto
    have m: "length ps' = length ps" "sum_list (map length ps') < sum_list (map length ps)"
      using spmd_step_measure [OF st] by simp_all
    have "indep ps'" "spmd_seq ps' fs' = Inr F" using spmd_step_seq [OF st less.prems] by simp_all
    then have "spmd_step\<^sup>*\<^sup>* (ps', fs') (replicate (length ps') [], F)"
      using less.hyps [OF m(2)] by blast
    then show ?thesis using st m(1) by (simp add: converse_rtranclp_into_rtranclp)
  qed
qed

section \<open>The ranks of \<open>write_parallel\<close>\<close>

lemma seg_no_barrier: "Barrier \<notin> set xs \<Longrightarrow> seg (xs @ Barrier # ys) = xs \<and> after_seg (xs @ Barrier # ys) = ys"
  by (induction xs) (auto simp: seg_def after_seg_def)

lemma seg_no_barrier_end: "Barrier \<notin> set xs \<Longrightarrow> seg xs = xs \<and> after_seg xs = []"
  by (induction xs) (auto simp: seg_def after_seg_def)

lemma phase_Nil [simp]: "phase k [] = []"
  by (induction k) (simp_all add: phase_Suc, simp add: phase_def)

text \<open>Rank \<open>r\<close> acts in three phases: two directories on rank 0, then the files.\<close>

lemma write_parallel_prog_phase:
  "phase k (write_parallel_prog path m cd r) =
     (if k = 0 then (if r = 0 then [Mkdir path] else [])
      else if k = 1 then (if r = 0 then [Mkdir (path @ ''/pieces'')] else [])
      else if k = 2 then (if r = 0 then [Write_pvtu (get_pvtu_path path) m cd ''pieces/piece''] else [])
                         @ [Write_vtu (piece_filename (path @ ''/pieces/piece'') r) m cd]
      else [])"
proof -
  let ?P0 = "if r = 0 then [Mkdir path] else []"
  let ?P1 = "if r = 0 then [Mkdir (path @ ''/pieces'')] else []"
  let ?P2 = "(if r = 0 then [Write_pvtu (get_pvtu_path path) m cd ''pieces/piece''] else [])
             @ [Write_vtu (piece_filename (path @ ''/pieces/piece'') r) m cd]"
  have p: "write_parallel_prog path m cd r = ?P0 @ Barrier # ?P1 @ Barrier # ?P2"
    by (simp add: write_parallel_prog_def Let_def)
  have nb: "Barrier \<notin> set ?P0" "Barrier \<notin> set ?P1" "Barrier \<notin> set ?P2" by simp_all
  have a1: "after_seg (write_parallel_prog path m cd r) = ?P1 @ Barrier # ?P2"
    and s0: "seg (write_parallel_prog path m cd r) = ?P0"
    unfolding p using seg_no_barrier [OF nb(1)] by simp_all
  have a2: "after_seg (?P1 @ Barrier # ?P2) = ?P2" and s1: "seg (?P1 @ Barrier # ?P2) = ?P1"
    using seg_no_barrier [OF nb(2)] by simp_all
  have a3: "after_seg ?P2 = []" and s2: "seg ?P2 = ?P2" using seg_no_barrier_end [OF nb(3)] by simp_all
  have f0: "phase 0 (write_parallel_prog path m cd r) = ?P0" using s0 by (simp only: phase_def funpow_0)
  have f1: "phase 1 (write_parallel_prog path m cd r) = ?P1"
  proof -
    have "phase 1 (write_parallel_prog path m cd r) = phase 0 (?P1 @ Barrier # ?P2)"
      using a1 by (simp only: One_nat_def phase_Suc)
    then show ?thesis using s1 by (simp only: phase_def funpow_0)
  qed
  have f2: "phase 2 (write_parallel_prog path m cd r) = ?P2"
  proof -
    have "phase 2 (write_parallel_prog path m cd r) = phase 0 ?P2"
      using a1 a2 by (simp only: numeral_2_eq_2 phase_Suc)
    then show ?thesis using s2 by (simp only: phase_def funpow_0)
  qed
  have f3: "phase (Suc (Suc (Suc j))) (write_parallel_prog path m cd r) = []" for j
    using a1 a2 a3 by (simp only: phase_Suc phase_Nil)
  show ?thesis
  proof (cases "k < 3")
    case True
    then have "k = 0 \<or> k = 1 \<or> k = 2" by auto
    then show ?thesis using f0 f1 f2 by auto
  next
    case False
    then obtain j where "k = Suc (Suc (Suc j))"
      by (metis less_Suc_eq numeral_3_eq_3 not0_implies_Suc)
    then show ?thesis using f3 by simp
  qed
qed

lemma nat_digits_inj: "nat_digits n = nat_digits n' \<Longrightarrow> n = n'"
  by (metis digits_value_nat_digits mult_zero_left add_0)

lemma piece_filename_inj: "piece_filename pp r = piece_filename pp r' \<Longrightarrow> r = r'"
  by (simp add: piece_filename_def to_string_def nat_digits_inj)

lemma pvtu_not_piece: "get_pvtu_path path \<noteq> piece_filename (path @ ''/pieces/piece'') r"
  by (simp add: get_pvtu_path_def piece_filename_def)

lemma write_file_commute:
  assumes "p \<noteq> q"
  shows "(sbind (write_file p c fs) (write_file q d) = Inr F) = (sbind (write_file q d fs) (write_file p c) = Inr F)"
  using assms by (auto simp: write_file_def sbind_eq_Inr parent_ok_def fun_upd_twist)

lemma sbind_Inr_right [simp]: "sbind x Inr = x"
  by (cases x) simp_all

lemma run_pact_write:
  "pact_write a = Some (f, c) \<Longrightarrow> run_pact a fs = sbind c (\<lambda>v. write_file f v fs)"
  by (cases a) (auto simp: write_pvtu_file_def write_vtu_file_def write_initial_pvd_def sbind_assoc)

text \<open>Writes of different files commute.\<close>

lemma commute_writes:
  assumes "pact_write a = Some (f, c)" and "pact_write b = Some (g, d)" and "f \<noteq> g"
  shows "commute a b"
proof -
  have "(sbind (run_pact a fs) (run_pact b) = Inr F) = (sbind (run_pact b fs) (run_pact a) = Inr F)" for fs F
  proof -
    have "(sbind (run_pact a fs) (run_pact b) = Inr F)
          = (\<exists>v w. c = Inr v \<and> d = Inr w \<and> sbind (write_file f v fs) (write_file g w) = Inr F)"
      using run_pact_write [OF assms(1)] run_pact_write [OF assms(2)] by (auto simp: sbind_eq_Inr)
    also have "\<dots> = (\<exists>v w. c = Inr v \<and> d = Inr w \<and> sbind (write_file g w fs) (write_file f v) = Inr F)"
      using write_file_commute [OF assms(3)] by simp
    also have "\<dots> = (sbind (run_pact b fs) (run_pact a) = Inr F)"
      using run_pact_write [OF assms(1)] run_pact_write [OF assms(2)] by (auto simp: sbind_eq_Inr)
    finally show ?thesis .
  qed
  then show ?thesis by (simp add: commute_def)
qed

text \<open>Between two barriers the ranks of \<open>write_parallel\<close> act on different files.\<close>

lemma write_parallel_progs_indep: "indep (write_parallel_progs path ms cd)"
  unfolding indep_def
proof (intro allI impI ballI)
  fix k r r' a b
  assume r: "r < length (write_parallel_progs path ms cd)" and r': "r' < length (write_parallel_progs path ms cd)"
    and ne: "r \<noteq> r'"
    and a: "a \<in> set (phase k (write_parallel_progs path ms cd ! r))"
    and b: "b \<in> set (phase k (write_parallel_progs path ms cd ! r'))"
  let ?pf = "piece_filename (path @ ''/pieces/piece'')"
  have k: "k = 2" and ab: "a \<in> set ((if r = 0 then [Write_pvtu (get_pvtu_path path) (ms ! r) cd ''pieces/piece''] else [])
                                     @ [Write_vtu (?pf r) (ms ! r) cd])"
      "b \<in> set ((if r' = 0 then [Write_pvtu (get_pvtu_path path) (ms ! r') cd ''pieces/piece''] else [])
                  @ [Write_vtu (?pf r') (ms ! r') cd])"
    using a b r r' ne by (auto simp: write_parallel_progs_def write_parallel_prog_phase split: if_splits)
  have "?pf r \<noteq> ?pf r'" using ne piece_filename_inj by blast
  then show "commute a b"
    using ab pvtu_not_piece [of path] pvtu_not_piece [of path, THEN not_sym]
    by (auto intro!: commute_writes split: if_splits)
qed

text \<open>The reference run of \<open>write_parallel\<close>: the directories, the index, then the pieces in rank order.\<close>

lemma concat_first_rank: "0 < n \<Longrightarrow> concat (map (\<lambda>r. (if r = 0 then xs else []) @ f r) [0..<n]) = xs @ concat (map f [0..<n])"
proof -
  assume "0 < n"
  then have u: "[0..<n] = 0 # [Suc 0..<n]" by (simp add: upt_rec)
  have e: "map (\<lambda>r. (if r = 0 then xs else []) @ f r) [Suc 0..<n] = map f [Suc 0..<n]"
    by (rule map_cong) auto
  show ?thesis unfolding u list.map concat.simps e by simp
qed

lemma write_parallel_seq:
  assumes "ms \<noteq> []"
  shows "spmd_seq (write_parallel_progs path ms cd) fs =
     sbind (safe_mkdir path fs) (\<lambda>fs. sbind (safe_mkdir (path @ ''/pieces'') fs) (\<lambda>fs.
     sbind (write_pvtu_file (get_pvtu_path path) (ms ! 0) cd ''pieces/piece'' fs)
       (run_pacts (map (\<lambda>r. Write_vtu (piece_filename (path @ ''/pieces/piece'') r) (ms ! r) cd) [0..<length ms]))))"
proof -
  let ?n = "length ms" and ?pf = "piece_filename (path @ ''/pieces/piece'')"
  define P0 where "P0 r = (if r = 0 then [Mkdir path] else [])" for r :: nat
  define P1 where "P1 r = (if r = 0 then [Mkdir (path @ ''/pieces'')] else [])" for r :: nat
  define P2 where "P2 r = (if r = 0 then [Write_pvtu (get_pvtu_path path) (ms ! 0) cd ''pieces/piece''] else [])
                          @ [Write_vtu (?pf r) (ms ! r) cd]" for r :: nat
  have n: "0 < ?n" using assms by simp
  have nb: "Barrier \<notin> set (P0 r)" "Barrier \<notin> set (P1 r)" "Barrier \<notin> set (P2 r)" for r
    by (simp_all add: P0_def P1_def P2_def)
  have progs: "write_parallel_progs path ms cd = map (\<lambda>r. P0 r @ Barrier # P1 r @ Barrier # P2 r) [0..<?n]"
    by (auto simp: write_parallel_progs_def write_parallel_prog_def Let_def P0_def P1_def P2_def)
  have l0: "list_all (\<lambda>p. Barrier \<in> set p) (map (\<lambda>r. P0 r @ Barrier # P1 r @ Barrier # P2 r) [0..<?n])"
    "\<not> list_all (\<lambda>p. Barrier \<notin> set p) (map (\<lambda>r. P0 r @ Barrier # P1 r @ Barrier # P2 r) [0..<?n])"
    using n by (auto simp: list_all_iff)
  have l1: "list_all (\<lambda>p. Barrier \<in> set p) (map (\<lambda>r. P1 r @ Barrier # P2 r) [0..<?n])"
    "\<not> list_all (\<lambda>p. Barrier \<notin> set p) (map (\<lambda>r. P1 r @ Barrier # P2 r) [0..<?n])"
    using n by (auto simp: list_all_iff)
  have l2: "list_all (\<lambda>p. Barrier \<notin> set p) (map P2 [0..<?n])" using nb(3) by (simp add: list_all_iff)
  have c0: "concat (map seg (map (\<lambda>r. P0 r @ Barrier # P1 r @ Barrier # P2 r) [0..<?n])) = [Mkdir path]"
    and m0: "map after_seg (map (\<lambda>r. P0 r @ Barrier # P1 r @ Barrier # P2 r) [0..<?n])
             = map (\<lambda>r. P1 r @ Barrier # P2 r) [0..<?n]"
    using seg_no_barrier [OF nb(1)] concat_first_rank [OF n, of "[Mkdir path]" "\<lambda>_. []"]
    by (simp_all add: comp_def P0_def)
  have c1: "concat (map seg (map (\<lambda>r. P1 r @ Barrier # P2 r) [0..<?n])) = [Mkdir (path @ ''/pieces'')]"
    and m1: "map after_seg (map (\<lambda>r. P1 r @ Barrier # P2 r) [0..<?n]) = map P2 [0..<?n]"
    using seg_no_barrier [OF nb(2)] concat_first_rank [OF n, of "[Mkdir (path @ ''/pieces'')]" "\<lambda>_. []"]
    by (simp_all add: comp_def P1_def)
  have c2: "concat (map seg (map P2 [0..<?n]))
            = Write_pvtu (get_pvtu_path path) (ms ! 0) cd ''pieces/piece''
              # map (\<lambda>r. Write_vtu (?pf r) (ms ! r) cd) [0..<?n]"
  proof -
    have s: "map seg (map P2 [0..<?n]) = map P2 [0..<?n]"
      using seg_no_barrier_end [OF nb(3)] by (simp del: seg_Cons)
    show ?thesis
      unfolding s P2_def
      using concat_first_rank [OF n, of "[Write_pvtu (get_pvtu_path path) (ms ! 0) cd ''pieces/piece'']"
          "\<lambda>r. [Write_vtu (?pf r) (ms ! r) cd]"]
      by (simp add: map_concat)
  qed
  show ?thesis
    unfolding progs
    apply (subst spmd_seq.simps)
    apply (simp only: c0 l0 m0 if_False if_True)
    apply (subst spmd_seq.simps)
    apply (simp only: c1 l1 m1 if_False if_True)
    apply (subst spmd_seq.simps)
    apply (simp add: c2 [unfolded map_map] l2)
    done
qed

text \<open>On one rank the parallel program is \<open>write_parallel\<close> itself.\<close>

lemma run_pacts_single: "run_pacts [a] = run_pact a"
  by (simp add: fun_eq_iff)

lemma write_parallel_one_rank: "spmd_seq (write_parallel_progs path [m] cd) fs = write_parallel path m cd fs"
proof -
  have "run_pact (Write_vtu f m cd) = write_vtu_file f m cd" for f by (simp add: fun_eq_iff)
  then show ?thesis by (simp add: write_parallel_seq write_parallel_def run_pacts_single Let_def)
qed

section \<open>The files the reference run leaves\<close>

lemma write_vtu_file_Inr:
  "write_vtu_file f m cd fs = Inr fs' \<longleftrightarrow>
   (\<exists>ts. write_vtu m cd = Inr ts \<and> parent_ok fs f \<and> fs' = fs\<lparr>fs_files := (fs_files fs)(f \<mapsto> Items ts)\<rparr>)"
  by (auto simp: write_vtu_file_def write_file_def sbind_eq_Inr)

lemma parent_ok_dirs: "fs_dirs fs' = fs_dirs fs \<Longrightarrow> parent_ok fs' p = parent_ok fs p"
  by (simp add: parent_ok_def)

text \<open>Each rank's piece, written in rank order, is left in its own file.\<close>

lemma run_pieces:
  assumes "run_pacts (map (\<lambda>r. Write_vtu (pf r) (ms ! r) cd) rs) fs = Inr F" and "distinct rs" and "inj pf"
  shows "fs_dirs F = fs_dirs fs \<and> (\<forall>p. p \<notin> pf ` set rs \<longrightarrow> fs_files F p = fs_files fs p)
         \<and> (\<forall>r\<in>set rs. \<exists>ts. write_vtu (ms ! r) cd = Inr ts \<and> fs_files F (pf r) = Some (Items ts))"
  using assms(1,2)
proof (induction rs arbitrary: fs)
  case (Cons r rs)
  obtain fs1 ts where w: "write_vtu (ms ! r) cd = Inr ts"
    and fs1: "fs1 = fs\<lparr>fs_files := (fs_files fs)(pf r \<mapsto> Items ts)\<rparr>"
    and rest: "run_pacts (map (\<lambda>r. Write_vtu (pf r) (ms ! r) cd) rs) fs1 = Inr F"
    using Cons.prems(1) by (auto simp: sbind_eq_Inr write_vtu_file_Inr)
  have IH: "fs_dirs F = fs_dirs fs1 \<and> (\<forall>p. p \<notin> pf ` set rs \<longrightarrow> fs_files F p = fs_files fs1 p)
         \<and> (\<forall>r\<in>set rs. \<exists>ts. write_vtu (ms ! r) cd = Inr ts \<and> fs_files F (pf r) = Some (Items ts))"
    using Cons.IH [OF rest] Cons.prems(2) by simp
  have "pf r \<notin> pf ` set rs" using Cons.prems(2) assms(3) by (auto dest: injD)
  then show ?case using IH w fs1 by auto
qed simp

lemma run_pieces_ok:
  assumes "\<forall>r\<in>set rs. \<exists>ts. write_vtu (ms ! r) cd = Inr ts" and "\<forall>r\<in>set rs. parent_ok fs (pf r)"
  shows "\<exists>F. run_pacts (map (\<lambda>r. Write_vtu (pf r) (ms ! r) cd) rs) fs = Inr F"
  using assms
proof (induction rs arbitrary: fs)
  case (Cons r rs)
  obtain ts where w: "write_vtu (ms ! r) cd = Inr ts" using Cons.prems(1) by auto
  let ?fs1 = "fs\<lparr>fs_files := (fs_files fs)(pf r \<mapsto> Items ts)\<rparr>"
  have "\<forall>r\<in>set rs. parent_ok ?fs1 (pf r)" using Cons.prems(2) by (simp add: parent_ok_def)
  then have "\<exists>F. run_pacts (map (\<lambda>r. Write_vtu (pf r) (ms ! r) cd) rs) ?fs1 = Inr F"
    using Cons.IH Cons.prems(1) by simp
  then obtain F where "run_pacts (map (\<lambda>r. Write_vtu (pf r) (ms ! r) cd) rs) ?fs1 = Inr F" ..
  then show ?case using w Cons.prems(2) by (auto simp: write_vtu_file_Inr sbind_eq_Inr)
qed simp

lemma piece_filename_inj_fun: "inj (piece_filename pp)"
  by (auto intro: injI piece_filename_inj)

lemma write_parallel_seq_files:
  assumes "ms \<noteq> []" and "spmd_seq (write_parallel_progs path ms cd) fs = Inr F"
  shows "fs_files F (get_pvtu_path path) = Some (Items (write_pvtu (ms ! 0) cd ''pieces/piece''))
         \<and> (\<forall>r<length ms. \<exists>ts. write_vtu (ms ! r) cd = Inr ts
               \<and> fs_files F (piece_filename (path @ ''/pieces/piece'') r) = Some (Items ts))"
proof -
  let ?pf = "piece_filename (path @ ''/pieces/piece'')"
  obtain fs2 fs3 where w: "write_pvtu_file (get_pvtu_path path) (ms ! 0) cd ''pieces/piece'' fs2 = Inr fs3"
    and r: "run_pacts (map (\<lambda>r. Write_vtu (?pf r) (ms ! r) cd) [0..<length ms]) fs3 = Inr F"
    using assms by (auto simp: write_parallel_seq sbind_eq_Inr)
  have p: "fs_files fs3 (get_pvtu_path path) = Some (Items (write_pvtu (ms ! 0) cd ''pieces/piece''))"
    using write_file_Inr [OF w [unfolded write_pvtu_file_def]] by simp
  have "get_pvtu_path path \<notin> ?pf ` set [0..<length ms]" using pvtu_not_piece by auto
  then show ?thesis using run_pieces [OF r _ piece_filename_inj_fun] p by auto
qed

lemma write_parallel_seq_ok:
  assumes "ms \<noteq> []" and "parent_ok fs path" and "\<forall>r<length ms. \<exists>ts. write_vtu (ms ! r) cd = Inr ts"
  shows "\<exists>F. spmd_seq (write_parallel_progs path ms cd) fs = Inr F"
proof -
  let ?pf = "piece_filename (path @ ''/pieces/piece'')"
  obtain fs1 where 1: "safe_mkdir path fs = Inr fs1" using safe_mkdir_ok [OF assms(2)] by blast
  have d1: "path \<in> set (fs_dirs fs1)" using safe_mkdir_Inr [OF 1] by simp
  obtain fs2 where 2: "safe_mkdir (path @ ''/pieces'') fs1 = Inr fs2"
    using safe_mkdir_ok [of fs1 "path @ ''/pieces''"] d1 by (auto simp: parent_ok_def dir_of_pieces)
  have d2: "path \<in> set (fs_dirs fs2)" "path @ ''/pieces'' \<in> set (fs_dirs fs2)"
    using safe_mkdir_Inr [OF 2] d1 by auto
  obtain fs3 where 3: "write_pvtu_file (get_pvtu_path path) (ms ! 0) cd ''pieces/piece'' fs2 = Inr fs3"
    using write_file_ok [of fs2 "get_pvtu_path path"] d2
    by (auto simp: write_pvtu_file_def parent_ok_def dir_of_pvtu)
  have d3: "path @ ''/pieces'' \<in> set (fs_dirs fs3)"
    using write_file_Inr [of _ _ fs2 fs3] 3 d2 by (auto simp: write_pvtu_file_def)
  have "\<forall>r\<in>set [0..<length ms]. parent_ok fs3 (?pf r)"
    using d3 dir_of_piece_file [of path] by (simp add: parent_ok_def)
  then obtain F where "run_pacts (map (\<lambda>r. Write_vtu (?pf r) (ms ! r) cd) [0..<length ms]) fs3 = Inr F"
    using run_pieces_ok [of "[0..<length ms]" ms cd fs3 ?pf] assms(3) by auto
  then show ?thesis using 1 2 3 by (simp add: write_parallel_seq [OF assms(1)])
qed

section \<open>Reading the pieces back\<close>

lemma pvtu_pieces_listed:
  "pvtu_pieces rank (map (item_line \<circ> (\<lambda>i. XTag \<lparr>elem_name = ''Piece'', kind = SELF_CLOSING,
                                              attribs = [(''Source'', piece_filename pp i)]\<rparr>)) [0..<n]) (0, [])
   = (n, if rank < n then piece_filename pp rank else [])"
  by (induction n) (auto simp: pvtu_pieces_append item_line_def attrib_def)

text \<open>Rank \<open>rank\<close> of \<open>cs\<close> ranks reads from an index the number of pieces and its own piece.\<close>

lemma read_pvtu_write_pvtu:
  "read_pvtu rank cs (map item_line (write_pvtu m cd pp)) =
     sbind (check (1 \<le> vm_comm_size m) ''npieces >= 1'') (\<lambda>_.
     sbind (check (vm_comm_size m \<le> cs) ''npieces <= comm->size()'') (\<lambda>_.
     Inr (vm_comm_size m, if rank < vm_comm_size m then piece_filename pp rank else [])))"
proof -
  have other: "pvtu_pieces rank (map item_line (concat (map (\<lambda>t. write_p_tag t d) ts))) acc = acc" for d ts acc
    by (rule pvtu_pieces_other) (fastforce simp: item_line_def dest!: write_p_tag_names)
  show ?thesis
    by (simp add: read_pvtu_def write_pvtu_def pvtu_pieces_append other item_line_def start_tag_def
        end_tag_def write_p_data_array_def pvtu_pieces_listed)
qed

lemma spmd_reach_length: "spmd_step\<^sup>*\<^sup>* s0 s \<Longrightarrow> length (fst s) = length (fst s0)"
proof (induction rule: rtranclp_induct)
  case (step y z)
  then show ?case using spmd_step_measure [of "fst y" "snd y" "fst z" "snd z"] by simp
qed simp

text \<open>A run of the ranks that has ended leaves the files of the reference run.\<close>

lemma write_parallel_run_files:
  assumes "spmd_step\<^sup>*\<^sup>* (write_parallel_progs path ms cd, fs) (ps, fs')" and "list_all (\<lambda>p. p = []) ps"
    and "spmd_seq (write_parallel_progs path ms cd) fs = Inr F"
  shows "fs' = F"
  using spmd_reach_seq [OF assms(1)] write_parallel_progs_indep assms(3) spmd_seq_done [OF assms(2)] by simp

text \<open>The index of a step and its pieces, as \<open>write_parallel\<close> writes them, read back on any rank.\<close>

lemma read_parallel_files:
  assumes "ms \<noteq> []" and "\<forall>m\<in>set ms. vmesh_ok m cd \<and> vm_comm_size m = length ms"
    and "fs_files F (get_pvtu_path path) = Some (Items (write_pvtu (ms ! 0) cd ''pieces/piece''))"
    and "\<forall>r<length ms. \<exists>ts. write_vtu (ms ! r) cd = Inr ts
            \<and> fs_files F (piece_filename (path @ ''/pieces/piece'') r) = Some (Items ts)"
  shows "read_parallel rank cs (get_pvtu_path path) F =
           sbind (check (length ms \<le> cs) ''npieces <= comm->size()'') (\<lambda>_.
           Inr (if rank < length ms then Some (vtu_of_mesh (ms ! rank) cd) else None))"
proof -
  let ?pf = "piece_filename (path @ ''/pieces/piece'')"
  note files = assms(3,4)
  have cs0: "vm_comm_size (ms ! 0) = length ms" using assms(1,2) by simp
  have path: "dir_of (get_pvtu_path path) @ ''/'' @ piece_filename ''pieces/piece'' rank = ?pf rank"
    by (simp add: dir_of_pvtu piece_filename_def)
  show ?thesis
  proof (cases "rank < length ms")
    case True
    obtain ts where ts: "write_vtu (ms ! rank) cd = Inr ts" and f: "fs_files F (?pf rank) = Some (Items ts)"
      using files(2) True by blast
    have ok: "vmesh_ok (ms ! rank) cd" and c: "vm_comm_size (ms ! rank) = length ms"
      using assms(2) True by simp_all
    have "read_vtu (length ms) ts = Inr (vtu_of_mesh (ms ! rank) cd)"
      using write_read_vtu_exists [OF ok] ts c by auto
    then show ?thesis
      using True files(1) f cs0 path assms(1)
      by (auto simp: read_parallel_def read_pvtu_file_def read_pvtu_write_pvtu check_def Suc_le_eq)
  next
    case False
    then show ?thesis
      using files(1) cs0 assms(1) by (auto simp: read_parallel_def read_pvtu_file_def read_pvtu_write_pvtu check_def
          Suc_le_eq)
  qed
qed

lemma read_parallel_pieces:
  assumes "ms \<noteq> []" and "spmd_seq (write_parallel_progs path ms cd) fs = Inr F"
    and "\<forall>m\<in>set ms. vmesh_ok m cd \<and> vm_comm_size m = length ms"
  shows "read_parallel rank cs (get_pvtu_path path) F =
           sbind (check (length ms \<le> cs) ''npieces <= comm->size()'') (\<lambda>_.
           Inr (if rank < length ms then Some (vtu_of_mesh (ms ! rank) cd) else None))"
  using write_parallel_seq_files [OF assms(1,2)] read_parallel_files [OF assms(1,3)] by simp

lemma spmd_seq_no_abort:
  assumes "indep ps" and "spmd_seq ps fs = Inr F"
  shows "\<not> spmd_abort (ps, fs) e"
proof
  assume "spmd_abort (ps, fs) e"
  then obtain i a rest where "i < length ps" "ps ! i = a # rest" "a \<noteq> Barrier" "run_pact a fs = Inl e"
    by (cases rule: spmd_abort.cases) auto
  then show False using spmd_seq_head_ok [OF assms] by fastforce
qed

lemma write_parallel_progs_length [simp]: "length (write_parallel_progs path ms cd) = length ms"
  by (simp add: write_parallel_progs_def)

lemma vmesh_ok_write_vtu: "vmesh_ok m cd \<Longrightarrow> \<exists>ts. write_vtu m cd = Inr ts"
  using write_read_vtu_exists by blast

section \<open>Properties of \<open>write_parallel\<close> and \<open>read_parallel\<close> on several ranks\<close>

text \<open>
  C30: whatever the order in which the ranks of \<open>write_parallel\<close> run their
  actions between the barriers, no action fails when the directory of the step
  can be made and every piece can be written, and once every rank has finished
  the file system is the one the rank-ordered run leaves.
\<close>

theorem write_parallel_any_schedule:
  assumes "spmd_step\<^sup>*\<^sup>* (write_parallel_progs path ms cd, fs) (ps, fs')"
    and "ms \<noteq> []" and "parent_ok fs path" and "\<forall>r<length ms. \<exists>ts. write_vtu (ms ! r) cd = Inr ts"
  shows "(\<forall>e. \<not> spmd_abort (ps, fs') e)
         \<and> (list_all (\<lambda>p. p = []) ps \<longrightarrow> spmd_seq (write_parallel_progs path ms cd) fs = Inr fs')"
proof -
  obtain F where F: "spmd_seq (write_parallel_progs path ms cd) fs = Inr F"
    using write_parallel_seq_ok [OF assms(2-4)] by blast
  have r: "indep ps" "spmd_seq ps fs' = Inr F"
    using spmd_reach_seq [OF assms(1)] write_parallel_progs_indep F by simp_all
  show ?thesis using spmd_seq_no_abort [OF r] spmd_seq_done r(2) F by auto
qed

text \<open>
  C31: under the same conditions every state the ranks reach can still run to
  the end: some continuation brings every rank past its last action, to the file
  system of the rank-ordered run.
\<close>

theorem write_parallel_completes:
  assumes "spmd_step\<^sup>*\<^sup>* (write_parallel_progs path ms cd, fs) (ps, fs')"
    and "ms \<noteq> []" and "parent_ok fs path" and "\<forall>r<length ms. \<exists>ts. write_vtu (ms ! r) cd = Inr ts"
  shows "\<exists>F. spmd_seq (write_parallel_progs path ms cd) fs = Inr F
             \<and> spmd_step\<^sup>*\<^sup>* (ps, fs') (replicate (length ms) [], F)"
proof -
  obtain F where F: "spmd_seq (write_parallel_progs path ms cd) fs = Inr F"
    using write_parallel_seq_ok [OF assms(2-4)] by blast
  have r: "indep ps" "spmd_seq ps fs' = Inr F"
    using spmd_reach_seq [OF assms(1)] write_parallel_progs_indep F by simp_all
  have "length ps = length ms" using spmd_reach_length [OF assms(1)] by simp
  then show ?thesis using spmd_completes [OF r] F by auto
qed

text \<open>
  C32: after the ranks of \<open>write_parallel\<close> have finished, in any order,
  \<open>read_parallel\<close> on rank \<open>rank\<close> of \<open>cs\<close> ranks gives that rank the mesh
  of the piece the rank of the same number wrote, and nothing to the ranks beyond
  the pieces; on fewer ranks than pieces it fails
  \<open>CHECK(npieces <= comm->size())\<close>.
\<close>

theorem read_parallel_after_write_parallel:
  assumes "spmd_step\<^sup>*\<^sup>* (write_parallel_progs path ms cd, fs) (ps, fs')" and "list_all (\<lambda>p. p = []) ps"
    and "ms \<noteq> []" and "parent_ok fs path" and "\<forall>m\<in>set ms. vmesh_ok m cd \<and> vm_comm_size m = length ms"
  shows "read_parallel rank cs (get_pvtu_path path) fs' =
           (if length ms \<le> cs then Inr (if rank < length ms then Some (vtu_of_mesh (ms ! rank) cd) else None)
            else Inl (Check_failed ''npieces <= comm->size()''))"
proof -
  have "\<forall>r<length ms. \<exists>ts. write_vtu (ms ! r) cd = Inr ts"
    using assms(5) vmesh_ok_write_vtu by simp
  then obtain F where F: "spmd_seq (write_parallel_progs path ms cd) fs = Inr F"
    using write_parallel_seq_ok [OF assms(3,4)] by blast
  have "fs' = F" using write_parallel_run_files [OF assms(1,2) F] .
  then show ?thesis using read_parallel_pieces [OF assms(3) F assms(5), of rank cs] by (simp add: check_def)
qed


section \<open>Two ranks writing the unit square\<close>


lemma square_part_ok: "r < 2 \<Longrightarrow> vmesh_ok (square_part r) 2 \<and> vm_comm_size (square_part r) = 2"
  by (auto simp: less_2_cases_iff vmesh_ok_def square_part_def find_tag_def tag_ok_def)

lemma square_progs:
  "write_parallel_progs ''out'' [square_part 0, square_part 1] 2 =
     [[Mkdir ''out'', Barrier, Mkdir ''out/pieces'', Barrier,
       Write_pvtu ''out/pieces.pvtu'' (square_part 0) 2 ''pieces/piece'',
       Write_vtu (piece_filename ''out/pieces/piece'' 0) (square_part 0) 2],
      [Barrier, Barrier, Write_vtu (piece_filename ''out/pieces/piece'' 1) (square_part 1) 2]]"
  by (simp add: write_parallel_progs_def write_parallel_prog_def get_pvtu_path_def upt_rec)

lemma square_schedule:
  "\<exists>fs'. spmd_step\<^sup>*\<^sup>* (write_parallel_progs ''out'' [square_part 0, square_part 1] 2,
                         \<lparr>fs_dirs = [], fs_files = \<lambda>_. None\<rparr>)
            ([[Write_pvtu ''out/pieces.pvtu'' (square_part 0) 2 ''pieces/piece'',
               Write_vtu (piece_filename ''out/pieces/piece'' 0) (square_part 0) 2], []], fs')"
proof -
  let ?W = "Write_pvtu ''out/pieces.pvtu'' (square_part 0) 2 ''pieces/piece''"
  let ?V0 = "Write_vtu (piece_filename ''out/pieces/piece'' 0) (square_part 0) 2"
  let ?V1 = "Write_vtu (piece_filename ''out/pieces/piece'' 1) (square_part 1) 2"
  let ?fs0 = "\<lparr>fs_dirs = [], fs_files = \<lambda>_. None\<rparr> :: vfs"
  let ?fs1 = "\<lparr>fs_dirs = [''out''], fs_files = \<lambda>_. None\<rparr> :: vfs"
  let ?fs2 = "\<lparr>fs_dirs = [''out'', ''out/pieces''], fs_files = \<lambda>_. None\<rparr> :: vfs"
  obtain ts where ts: "write_vtu (square_part 1) 2 = Inr ts"
    using vmesh_ok_write_vtu square_part_ok [of 1] by auto
  let ?fs3 = "?fs2\<lparr>fs_files := (fs_files ?fs2)(piece_filename ''out/pieces/piece'' 1 \<mapsto> Items ts)\<rparr>"
  have d1: "dir_of ''out'' = []" by (simp add: dir_of_def slash_def)
  have d2: "dir_of ''out/pieces'' = ''out''" using dir_of_pieces [of "''out''"] by simp
  have d3: "dir_of (piece_filename ''out/pieces/piece'' 1) = ''out/pieces''"
    using dir_of_piece_file [of "''out''" 1] by simp
  have 1: "spmd_step ([[Mkdir ''out'', Barrier, Mkdir ''out/pieces'', Barrier, ?W, ?V0], [Barrier, Barrier, ?V1]], ?fs0)
              ([[Barrier, Mkdir ''out/pieces'', Barrier, ?W, ?V0], [Barrier, Barrier, ?V1]], ?fs1)"
    using spmd_step.local [of 0 "[[Mkdir ''out'', Barrier, Mkdir ''out/pieces'', Barrier, ?W, ?V0], [Barrier, Barrier, ?V1]]"
        "Mkdir ''out''" "[Barrier, Mkdir ''out/pieces'', Barrier, ?W, ?V0]" ?fs0 ?fs1]
    by (simp add: safe_mkdir_def parent_ok_def d1)
  have 2: "spmd_step ([[Barrier, Mkdir ''out/pieces'', Barrier, ?W, ?V0], [Barrier, Barrier, ?V1]], ?fs1)
              ([[Mkdir ''out/pieces'', Barrier, ?W, ?V0], [Barrier, ?V1]], ?fs1)"
    using spmd_step.barrier [of "[[Barrier, Mkdir ''out/pieces'', Barrier, ?W, ?V0], [Barrier, Barrier, ?V1]]" ?fs1]
    by simp
  have 3: "spmd_step ([[Mkdir ''out/pieces'', Barrier, ?W, ?V0], [Barrier, ?V1]], ?fs1)
              ([[Barrier, ?W, ?V0], [Barrier, ?V1]], ?fs2)"
    using spmd_step.local [of 0 "[[Mkdir ''out/pieces'', Barrier, ?W, ?V0], [Barrier, ?V1]]" "Mkdir ''out/pieces''"
        "[Barrier, ?W, ?V0]" ?fs1 ?fs2]
    by (simp add: safe_mkdir_def parent_ok_def d2)
  have 4: "spmd_step ([[Barrier, ?W, ?V0], [Barrier, ?V1]], ?fs2) ([[?W, ?V0], [?V1]], ?fs2)"
    using spmd_step.barrier [of "[[Barrier, ?W, ?V0], [Barrier, ?V1]]" ?fs2] by simp
  have 5: "spmd_step ([[?W, ?V0], [?V1]], ?fs2) ([[?W, ?V0], []], ?fs3)"
    using spmd_step.local [of 1 "[[?W, ?V0], [?V1]]" ?V1 "[]" ?fs2 ?fs3]
    by (simp add: write_vtu_file_def write_file_def ts [unfolded One_nat_def] parent_ok_def
        d3 [unfolded One_nat_def])
  show ?thesis unfolding square_progs
    using 1 2 3 4 5 by (meson converse_rtranclp_into_rtranclp rtranclp.rtrancl_refl)
qed

lemma square_writable:
  "\<forall>r<length [square_part 0, square_part 1]. \<exists>ts. write_vtu ([square_part 0, square_part 1] ! r) 2 = Inr ts"
proof (intro allI impI)
  fix r assume "r < length [square_part 0, square_part 1]"
  then have "r = 0 \<or> r = 1" by auto
  then show "\<exists>ts. write_vtu ([square_part 0, square_part 1] ! r) 2 = Inr ts"
    using square_part_ok [of 0] square_part_ok [of 1] vmesh_ok_write_vtu by auto
qed

lemma empty_parent_ok: "parent_ok \<lparr>fs_dirs = [], fs_files = \<lambda>_. None\<rparr> ''out''"
  by (simp add: parent_ok_def dir_of_def slash_def)

theorem write_parallel_any_schedule_witness:
  "\<exists>fs'. spmd_step\<^sup>*\<^sup>* (write_parallel_progs ''out'' [square_part 0, square_part 1] 2,
                         \<lparr>fs_dirs = [], fs_files = \<lambda>_. None\<rparr>)
            ([[Write_pvtu ''out/pieces.pvtu'' (square_part 0) 2 ''pieces/piece'',
               Write_vtu (piece_filename ''out/pieces/piece'' 0) (square_part 0) 2], []], fs')
       \<and> (\<forall>e. \<not> spmd_abort ([[Write_pvtu ''out/pieces.pvtu'' (square_part 0) 2 ''pieces/piece'',
               Write_vtu (piece_filename ''out/pieces/piece'' 0) (square_part 0) 2], []], fs') e)"
proof -
  obtain fs' where r: "spmd_step\<^sup>*\<^sup>* (write_parallel_progs ''out'' [square_part 0, square_part 1] 2,
                         \<lparr>fs_dirs = [], fs_files = \<lambda>_. None\<rparr>)
            ([[Write_pvtu ''out/pieces.pvtu'' (square_part 0) 2 ''pieces/piece'',
               Write_vtu (piece_filename ''out/pieces/piece'' 0) (square_part 0) 2], []], fs')"
    using square_schedule by blast
  show ?thesis using write_parallel_any_schedule [OF r _ empty_parent_ok square_writable] r by auto
qed

theorem write_parallel_completes_witness:
  "\<exists>fs' F. spmd_step\<^sup>*\<^sup>* (write_parallel_progs ''out'' [square_part 0, square_part 1] 2,
                           \<lparr>fs_dirs = [], fs_files = \<lambda>_. None\<rparr>)
              ([[Write_pvtu ''out/pieces.pvtu'' (square_part 0) 2 ''pieces/piece'',
                 Write_vtu (piece_filename ''out/pieces/piece'' 0) (square_part 0) 2], []], fs')
          \<and> spmd_step\<^sup>*\<^sup>* ([[Write_pvtu ''out/pieces.pvtu'' (square_part 0) 2 ''pieces/piece'',
                 Write_vtu (piece_filename ''out/pieces/piece'' 0) (square_part 0) 2], []], fs') ([[], []], F)"
proof -
  obtain fs' where r: "spmd_step\<^sup>*\<^sup>* (write_parallel_progs ''out'' [square_part 0, square_part 1] 2,
                         \<lparr>fs_dirs = [], fs_files = \<lambda>_. None\<rparr>)
            ([[Write_pvtu ''out/pieces.pvtu'' (square_part 0) 2 ''pieces/piece'',
               Write_vtu (piece_filename ''out/pieces/piece'' 0) (square_part 0) 2], []], fs')"
    using square_schedule by blast
  show ?thesis using write_parallel_completes [OF r _ empty_parent_ok square_writable] r
    by (auto simp: numeral_2_eq_2)
qed

theorem read_parallel_after_write_parallel_witness:
  "\<exists>fs'. spmd_step\<^sup>*\<^sup>* (write_parallel_progs ''out'' [square_part 0, square_part 1] 2,
                         \<lparr>fs_dirs = [], fs_files = \<lambda>_. None\<rparr>) ([[], []], fs')
       \<and> (\<exists>r. read_parallel 1 2 (get_pvtu_path ''out'') fs' = Inr (Some r) \<and> rv_globals r = AI64 [1, 3, 2])
       \<and> read_parallel 0 1 (get_pvtu_path ''out'') fs' = Inl (Check_failed ''npieces <= comm->size()'')"
proof -
  let ?ms = "[square_part 0, square_part 1]"
  let ?fs0 = "\<lparr>fs_dirs = [], fs_files = \<lambda>_. None\<rparr> :: vfs"
  obtain F where F: "spmd_seq (write_parallel_progs ''out'' ?ms 2) ?fs0 = Inr F"
    using write_parallel_seq_ok [OF _ empty_parent_ok square_writable] by auto
  have r: "spmd_step\<^sup>*\<^sup>* (write_parallel_progs ''out'' ?ms 2, ?fs0) ([[], []], F)"
    using spmd_completes [OF write_parallel_progs_indep F] by (simp add: numeral_2_eq_2)
  have ok: "\<forall>m\<in>set ?ms. vmesh_ok m 2 \<and> vm_comm_size m = length ?ms"
    using square_part_ok [of 0] square_part_ok [of 1] by simp
  have g: "rv_globals (vtu_of_mesh (square_part 1) 2) = AI64 [1, 3, 2]"
    by (simp add: vtu_of_mesh_def square_part_def find_tag_def)
  show ?thesis
    using read_parallel_after_write_parallel [OF r _ _ empty_parent_ok ok, of 1 2]
      read_parallel_after_write_parallel [OF r _ _ empty_parent_ok ok, of 0 1] r g
    by auto
qed

end
