(* ===== verification/VtkWriterRanks.thy ===== *)
theory VtkWriterRanks
  imports VtkParallel
begin

text \<open>
  \<open>Writer\<close> of \<open>vtk.cpp\<close> on a communicator of several ranks. Each rank's
  constructor and calls \<open>write(t)\<close> are a program of the actions of
  \<open>VtkParallel\<close> (\<open>writer_progs\<close>): rank 0 makes the directories, writes
  the initial collection and adds its line after every step; every rank writes its
  piece of every step. Rank 0's writer keeps the collection position, which
  \<open>update_pvd\<close> advances by the length of the line it writes. Between two
  barriers the ranks touch different files (\<open>writer_progs_indep\<close>), so every
  interleaving keeps the outcome of the rank-ordered run (\<open>writer_progs_seq\<close>):
  it cannot abort, it can always finish, and once finished the collection lists
  every time and every step reads back on every rank. On one rank the program
  is the \<open>Writer\<close> of \<open>VtkWriter\<close> (\<open>writer_one_rank\<close>).
\<close>

section \<open>The programs of the ranks of a \<open>Writer\<close>\<close>

text \<open>
  \<open>Writer(mesh, root_path, cell_dim)\<close> on rank \<open>rank\<close>: rank 0 makes the root
  and the steps directories, each followed by a barrier, and writes the initial
  collection; only rank 0 keeps the position \<open>write_initial_pvd\<close> returns.
\<close>

definition writer_init_prog :: "string \<Rightarrow> nat \<Rightarrow> nat \<Rightarrow> pact list \<times> vwriter" where
  "writer_init_prog root_path cd rank =
     ((if rank = 0 then [Mkdir root_path] else []) @ [Barrier]
      @ (if rank = 0 then [Mkdir (root_path @ ''/steps'')] else []) @ [Barrier]
      @ (if rank = 0 then [Init_pvd root_path] else []),
      \<lparr>wr_root = root_path, wr_cell_dim = cd, wr_step = 0,
       wr_pvd_pos = (if rank = 0 then length pvd_head else 0)\<rparr>)"

text \<open>
  \<open>Writer::write(time)\<close> on rank \<open>rank\<close>: \<open>write_parallel\<close> of the step,
  then \<open>update_pvd\<close> on rank 0, then \<open>++step_\<close>. The position \<open>update_pvd\<close>
  stores is the one after the line it writes, whatever the file holds, so it is
  known when the program is built.
\<close>

definition writer_write_prog ::
  "(real \<Rightarrow> string) \<Rightarrow> vmesh \<Rightarrow> nat \<Rightarrow> vwriter \<Rightarrow> real \<Rightarrow> pact list \<times> vwriter" where
  "writer_write_prog show_real m rank w time =
     (write_parallel_prog (get_step_path (wr_root w) (wr_step w)) m (wr_cell_dim w) rank
      @ (if rank = 0 then [Update_pvd show_real (wr_root w) (wr_pvd_pos w) (wr_step w) time] else []),
      w\<lparr>wr_pvd_pos := (if rank = 0 then wr_pvd_pos w + length (dataset_line show_real (wr_step w) time)
                       else wr_pvd_pos w),
        wr_step := wr_step w + 1\<rparr>)"

text \<open>A rank's writer through the calls \<open>write(t)\<close> for the times \<open>ts\<close>, in order.\<close>

fun writer_writes_prog ::
  "(real \<Rightarrow> string) \<Rightarrow> vmesh \<Rightarrow> nat \<Rightarrow> vwriter \<Rightarrow> real list \<Rightarrow> pact list \<times> vwriter" where
  "writer_writes_prog show_real m rank w [] = ([], w)"
| "writer_writes_prog show_real m rank w (t # ts) =
     (case writer_write_prog show_real m rank w t of (p, w') \<Rightarrow>
        (case writer_writes_prog show_real m rank w' ts of (q, w'') \<Rightarrow> (p @ q, w'')))"

text \<open>
  The programs of all ranks: rank \<open>r\<close> constructs its writer on its part
  \<open>ms ! r\<close> of the mesh and writes it at each time of \<open>ts\<close>.
\<close>

definition writer_progs ::
  "(real \<Rightarrow> string) \<Rightarrow> string \<Rightarrow> nat \<Rightarrow> vmesh list \<Rightarrow> real list \<Rightarrow> pact list list" where
  "writer_progs show_real root_path cd ms ts =
     map (\<lambda>r. case writer_init_prog root_path cd r of (p, w) \<Rightarrow>
                 p @ fst (writer_writes_prog show_real (ms ! r) r w ts)) [0..<length ms]"

text \<open>The writer of rank \<open>rank\<close> before step \<open>step\<close>, rank 0's position at \<open>pos\<close>.\<close>

definition rank_writer :: "string \<Rightarrow> nat \<Rightarrow> nat \<Rightarrow> nat \<Rightarrow> nat \<Rightarrow> vwriter" where
  "rank_writer root_path cd step pos rank =
     \<lparr>wr_root = root_path, wr_cell_dim = cd, wr_step = step, wr_pvd_pos = (if rank = 0 then pos else 0)\<rparr>"

text \<open>
  What rank \<open>rank\<close> does after the second barrier of step \<open>k\<close>: the index on
  rank 0, its own piece, and on rank 0 the collection entry.
\<close>

definition write_tail ::
  "(real \<Rightarrow> string) \<Rightarrow> string \<Rightarrow> nat \<Rightarrow> vmesh \<Rightarrow> nat \<Rightarrow> nat \<Rightarrow> real \<Rightarrow> nat \<Rightarrow> pact list" where
  "write_tail show_real root_path cd m k pos t rank =
     (if rank = 0 then [Write_pvtu (get_pvtu_path (get_step_path root_path k)) m cd ''pieces/piece''] else [])
     @ [Write_vtu (piece_filename (get_step_path root_path k @ ''/pieces/piece'') rank) m cd]
     @ (if rank = 0 then [Update_pvd show_real root_path pos k t] else [])"

text \<open>The files of step \<open>k\<close>: the index of rank 0 and the piece of every rank.\<close>

definition step_written :: "string \<Rightarrow> nat \<Rightarrow> vmesh list \<Rightarrow> nat \<Rightarrow> vfs \<Rightarrow> bool" where
  "step_written root_path cd ms k fs =
     (fs_files fs (get_pvtu_path (get_step_path root_path k)) = Some (Items (write_pvtu (ms ! 0) cd ''pieces/piece''))
      \<and> (\<forall>r<length ms. \<exists>vs. write_vtu (ms ! r) cd = Inr vs
            \<and> fs_files fs (piece_filename (get_step_path root_path k @ ''/pieces/piece'') r) = Some (Items vs)))"

section \<open>Reference runs phase by phase\<close>

lemma spmd_seq_phase:
  assumes "rs \<noteq> []" and "\<forall>r\<in>set rs. Barrier \<notin> set (A r)"
  shows "spmd_seq (map (\<lambda>r. A r @ Barrier # B r) rs) fs
         = sbind (run_pacts (concat (map A rs)) fs) (spmd_seq (map B rs))"
proof -
  have s: "map seg (map (\<lambda>r. A r @ Barrier # B r) rs) = map A rs"
    and a: "map after_seg (map (\<lambda>r. A r @ Barrier # B r) rs) = map B rs"
    using assms(2) seg_no_barrier by auto
  have l1: "list_all (\<lambda>p. Barrier \<in> set p) (map (\<lambda>r. A r @ Barrier # B r) rs)"
    and l2: "\<not> list_all (\<lambda>p. Barrier \<notin> set p) (map (\<lambda>r. A r @ Barrier # B r) rs)"
    using assms(1) by (auto simp: list_all_iff neq_Nil_conv)
  show ?thesis
    by (subst spmd_seq.simps) (simp only: s a l1 l2 if_True if_False sbind_Inr_right)
qed

lemma spmd_seq_last:
  assumes "\<forall>r\<in>set rs. Barrier \<notin> set (A r)"
  shows "spmd_seq (map A rs) fs = run_pacts (concat (map A rs)) fs"
proof -
  have s: "map seg (map A rs) = map A rs" using assms seg_no_barrier_end by auto
  have l: "list_all (\<lambda>p. Barrier \<notin> set p) (map A rs)" using assms by (simp add: list_all_iff)
  show ?thesis by (subst spmd_seq.simps) (simp only: s l if_True sbind_Inr_right)
qed

section \<open>Actions that commute\<close>

lemma commute_sym: "commute a b = commute b a"
  by (auto simp: commute_def)

lemma run_pact_Update_pvd:
  "run_pact (Update_pvd s r pos k t) fs =
     (case fs_files fs (get_pvd_path r) of
        Some (Text x) \<Rightarrow> Inr (fs\<lparr>fs_files := (fs_files fs)(get_pvd_path r \<mapsto> Text (overwrite x pos (dataset_line s k t @ pvd_tail)))\<rparr>)
      | _ \<Rightarrow> Inl (Check_failed ''file.is_open()''))"
  by (simp add: update_pvd_def Let_def split: option.split vfile.split)

lemma commute_mkdir_write:
  assumes "pact_write a = Some (f, c)" and "dir_of f \<noteq> d"
  shows "commute (Mkdir d) a"
proof -
  have "(sbind (safe_mkdir d fs) (\<lambda>fs. sbind c (\<lambda>v. write_file f v fs)) = Inr F)
        = (sbind (sbind c (\<lambda>v. write_file f v fs)) (safe_mkdir d) = Inr F)" for fs F
  proof (cases c)
    case (Inr v)
    have p: "parent_ok (fs\<lparr>fs_dirs := fs_dirs fs @ [d]\<rparr>) f = parent_ok fs f"
      using assms(2) by (auto simp: parent_ok_def)
    have u: "fs\<lparr>fs_dirs := ds, fs_files := fl\<rparr> = fs\<lparr>fs_files := fl, fs_dirs := ds\<rparr>" for ds fl
      by (cases fs) simp
    show ?thesis
      using p assms(2) by (simp add: Inr safe_mkdir_def write_file_def parent_ok_def u)
  qed (auto simp: sbind_eq_Inr)
  moreover have "run_pact a = (\<lambda>fs. sbind c (\<lambda>v. write_file f v fs))" "run_pact (Mkdir d) = safe_mkdir d"
    using run_pact_write [OF assms(1)] by (simp_all add: fun_eq_iff)
  ultimately show ?thesis by (simp add: commute_def)
qed

lemma commute_update_write:
  assumes "pact_write a = Some (f, c)" and "f \<noteq> get_pvd_path r"
  shows "commute (Update_pvd s r pos k t) a"
proof -
  let ?u = "\<lambda>x. overwrite x pos (dataset_line s k t @ pvd_tail)"
  have "(sbind (run_pact (Update_pvd s r pos k t) fs) (\<lambda>fs. sbind c (\<lambda>v. write_file f v fs)) = Inr F)
        = (sbind (sbind c (\<lambda>v. write_file f v fs)) (run_pact (Update_pvd s r pos k t)) = Inr F)" for fs F
  proof (cases c)
    case (Inr v)
    show ?thesis
    proof (cases "fs_files fs (get_pvd_path r)")
      case None
      then show ?thesis using assms(2)
        by (simp del: run_pact.simps add: Inr run_pact_Update_pvd write_file_def parent_ok_def)
    next
      case (Some y)
      then show ?thesis
        using assms(2)
        by (cases y) (simp_all del: run_pact.simps add: Inr run_pact_Update_pvd write_file_def parent_ok_def
            fun_upd_twist)
    qed
  qed (simp del: run_pact.simps add: run_pact_Update_pvd split: option.split vfile.split)
  moreover have "run_pact a = (\<lambda>fs. sbind c (\<lambda>v. write_file f v fs))"
    using run_pact_write [OF assms(1)] by (simp add: fun_eq_iff)
  ultimately show ?thesis by (simp del: run_pact.simps add: commute_def)
qed

section \<open>Paths of the steps\<close>

lemma slash_split:
  assumes "slash \<notin> set a" and "slash \<notin> set b" and "a @ slash # x = b @ slash # y"
  shows "a = b \<and> x = y"
  using assms
proof (induction a arbitrary: b)
  case Nil
  then show ?case by (cases b) auto
next
  case (Cons c a)
  then show ?case by (cases b) auto
qed

lemma to_string_nat_inj: "to_string (int k) = to_string (int k') \<Longrightarrow> k = k'"
  by (simp add: to_string_def nat_digits_inj)

lemma step_file_eq:
  "get_step_path rp k @ slash # x = get_step_path rp k' @ slash # y \<longleftrightarrow> k = k' \<and> x = y"
proof
  assume "get_step_path rp k @ slash # x = get_step_path rp k' @ slash # y"
  then have "to_string (int k) @ slash # x = to_string (int k') @ slash # y"
    by (simp add: get_step_path_def get_rel_step_path_def)
  then show "k = k' \<and> x = y"
    using slash_split [OF slash_not_digit slash_not_digit] to_string_nat_inj by blast
qed simp

lemma step_path_eq: "get_step_path rp k = get_step_path rp k' \<longleftrightarrow> k = k'"
  using to_string_nat_inj by (auto simp: get_step_path_def get_rel_step_path_def)

lemma step_path_not_pieces: "get_step_path rp k' \<noteq> get_step_path rp k @ ''/pieces''"
proof
  assume "get_step_path rp k' = get_step_path rp k @ ''/pieces''"
  then have "to_string (int k') = to_string (int k) @ ''/pieces''"
    by (simp add: get_step_path_def get_rel_step_path_def)
  then have "slash \<in> set (to_string (int k'))" by (simp add: slash_def)
  then show False using slash_not_digit by blast
qed

lemma pvtu_form: "get_pvtu_path p = p @ slash # ''pieces.pvtu''"
  by (simp add: get_pvtu_path_def slash_def)

lemma piece_form:
  "piece_filename (p @ ''/pieces/piece'') r = p @ slash # (''pieces/piece_'' @ to_string (int r) @ ''.vtu'')"
  by (simp add: piece_filename_def slash_def)

lemma step_files_apart:
  "get_pvtu_path (get_step_path rp k) = get_pvtu_path (get_step_path rp k') \<longleftrightarrow> k = k'"
  "get_pvtu_path (get_step_path rp k) \<noteq> piece_filename (get_step_path rp k' @ ''/pieces/piece'') r"
  "piece_filename (get_step_path rp k @ ''/pieces/piece'') r = piece_filename (get_step_path rp k' @ ''/pieces/piece'') r'
     \<longleftrightarrow> k = k' \<and> r = r'"
  "get_pvd_path rp \<noteq> get_pvtu_path (get_step_path rp k)"
  "get_pvd_path rp \<noteq> piece_filename (get_step_path rp k @ ''/pieces/piece'') r"
proof -
  show "get_pvtu_path (get_step_path rp k) = get_pvtu_path (get_step_path rp k') \<longleftrightarrow> k = k'"
    by (simp add: get_pvtu_path_def step_path_eq)
  show "get_pvtu_path (get_step_path rp k) \<noteq> piece_filename (get_step_path rp k' @ ''/pieces/piece'') r"
    by (simp add: pvtu_form piece_form step_file_eq)
  have "''pieces/piece_'' @ to_string (int r) @ ''.vtu'' = ''pieces/piece_'' @ to_string (int r') @ ''.vtu''
        \<longleftrightarrow> r = r'"
    using to_string_nat_inj by auto
  then show "piece_filename (get_step_path rp k @ ''/pieces/piece'') r
             = piece_filename (get_step_path rp k' @ ''/pieces/piece'') r' \<longleftrightarrow> k = k' \<and> r = r'"
    by (simp only: piece_form step_file_eq)
  show "get_pvd_path rp \<noteq> get_pvtu_path (get_step_path rp k)"
    "get_pvd_path rp \<noteq> piece_filename (get_step_path rp k @ ''/pieces/piece'') r"
    by (simp_all add: get_pvd_path_def get_pvtu_path_def get_step_path_def get_rel_step_path_def
        piece_filename_def slash_def)
qed

lemmas step_files_ne = step_files_apart(2,4,5) step_files_apart(2,4,5) [THEN not_sym]

section \<open>The shape of the programs\<close>

lemma writer_write_prog_rank:
  "writer_write_prog s m r (rank_writer rp cd k pos r) t =
     ((if r = 0 then [Mkdir (get_step_path rp k)] else []) @ Barrier
      # (if r = 0 then [Mkdir (get_step_path rp k @ ''/pieces'')] else []) @ Barrier
      # write_tail s rp cd m k pos t r,
      rank_writer rp cd (Suc k) (pos + length (dataset_line s k t)) r)"
  by (simp add: writer_write_prog_def write_parallel_prog_def write_tail_def rank_writer_def Let_def)

lemma writer_writes_prog_Cons:
  "fst (writer_writes_prog s m r (rank_writer rp cd k pos r) (t # ts)) =
     (if r = 0 then [Mkdir (get_step_path rp k)] else []) @ Barrier
     # (if r = 0 then [Mkdir (get_step_path rp k @ ''/pieces'')] else []) @ Barrier
     # write_tail s rp cd m k pos t r
     @ fst (writer_writes_prog s m r (rank_writer rp cd (Suc k) (pos + length (dataset_line s k t)) r) ts)"
  by (simp add: writer_write_prog_rank split: prod.split)

lemma writer_progs_ranks:
  "writer_progs s rp cd ms ts =
     map (\<lambda>r. (if r = 0 then [Mkdir rp] else []) @ Barrier
              # (if r = 0 then [Mkdir (rp @ ''/steps'')] else []) @ Barrier
              # (if r = 0 then [Init_pvd rp] else [])
              @ fst (writer_writes_prog s (ms ! r) r (rank_writer rp cd 0 (length pvd_head) r) ts))
         [0..<length ms]"
proof -
  have "snd (writer_init_prog rp cd r) = rank_writer rp cd 0 (length pvd_head) r" for r
    by (simp add: writer_init_prog_def rank_writer_def)
  then show ?thesis
    by (auto simp: writer_progs_def writer_init_prog_def split: prod.split)
qed

lemma write_tail_no_barrier: "Barrier \<notin> set (write_tail s rp cd m k pos t r)"
  by (simp add: write_tail_def)

section \<open>Between two barriers the ranks of a writer act on different files\<close>

lemma phase_barrier:
  assumes "Barrier \<notin> set A"
  shows "phase 0 (A @ Barrier # B) = A" and "phase (Suc k) (A @ Barrier # B) = phase k B"
  using seg_no_barrier [OF assms, of B] by (simp add: phase_def, simp add: phase_Suc)

lemma phase_end:
  assumes "Barrier \<notin> set A"
  shows "phase k A = (if k = 0 then A else [])"
proof (cases k)
  case 0
  then show ?thesis using seg_no_barrier_end [OF assms] by (simp add: phase_def)
next
  case (Suc n)
  then show ?thesis using seg_no_barrier_end [OF assms] by (simp add: phase_Suc)
qed

text \<open>What a rank's writes do between two barriers, counted from step \<open>i\<close>.\<close>

lemma writes_phase:
  assumes "Barrier \<notin> set X"
    and "a \<in> set (phase k (X @ fst (writer_writes_prog s m r (rank_writer rp cd i pos r) ts)))"
  shows "(k = 0 \<and> a \<in> set X)
         \<or> (\<exists>j<length ts. (k = 2 * j \<and> r = 0 \<and> a = Mkdir (get_step_path rp (i + j)))
              \<or> (k = 2 * j + 1 \<and> r = 0 \<and> a = Mkdir (get_step_path rp (i + j) @ ''/pieces''))
              \<or> (k = 2 * j + 2 \<and> (a = Write_vtu (piece_filename (get_step_path rp (i + j) @ ''/pieces/piece'') r) m cd
                     \<or> r = 0 \<and> (a = Write_pvtu (get_pvtu_path (get_step_path rp (i + j))) m cd ''pieces/piece''
                                 \<or> (\<exists>p' k' t'. a = Update_pvd s rp p' k' t')))))"
  using assms
proof (induction ts arbitrary: X i pos k)
  case Nil
  then show ?case using phase_end [OF Nil.prems(1), of k] by (simp split: if_splits)
next
  case (Cons t ts)
  let ?M0 = "if r = 0 then [Mkdir (get_step_path rp i)] else []"
  let ?M1 = "if r = 0 then [Mkdir (get_step_path rp i @ ''/pieces'')] else []"
  let ?P = "write_tail s rp cd m i pos t r"
  let ?R = "fst (writer_writes_prog s m r (rank_writer rp cd (Suc i) (pos + length (dataset_line s i t)) r) ts)"
  have prog: "X @ fst (writer_writes_prog s m r (rank_writer rp cd i pos r) (t # ts))
              = (X @ ?M0) @ Barrier # ?M1 @ Barrier # (?P @ ?R)"
    by (simp del: writer_writes_prog.simps add: writer_writes_prog_Cons)
  have nb: "Barrier \<notin> set (X @ ?M0)" "Barrier \<notin> set ?M1" "Barrier \<notin> set ?P"
    using Cons.prems(1) write_tail_no_barrier by simp_all
  have a0: "a \<in> set (phase k ((X @ ?M0) @ Barrier # ?M1 @ Barrier # (?P @ ?R)))"
    using Cons.prems(2) by (simp only: prog)
  consider "k = 0" | "k = 1" | k' where "k = Suc (Suc k')"
    by (metis One_nat_def not0_implies_Suc)
  then show ?case
  proof cases
    case 1
    then have "a \<in> set (X @ ?M0)" using a0 by (simp only: phase_barrier(1) [OF nb(1)])
    then show ?thesis using 1 by (auto split: if_splits)
  next
    case 2
    then have "a \<in> set ?M1"
      using a0 by (simp only: One_nat_def phase_barrier(2) [OF nb(1)] phase_barrier(1) [OF nb(2)])
    then show ?thesis using 2 by (auto split: if_splits)
  next
    case 3
    then have "a \<in> set (phase k' (?P @ ?R))"
      using a0 by (simp only: phase_barrier(2) [OF nb(1)] phase_barrier(2) [OF nb(2)])
    then have ih: "(k' = 0 \<and> a \<in> set ?P)
         \<or> (\<exists>j<length ts. (k' = 2 * j \<and> r = 0 \<and> a = Mkdir (get_step_path rp (Suc i + j)))
              \<or> (k' = 2 * j + 1 \<and> r = 0 \<and> a = Mkdir (get_step_path rp (Suc i + j) @ ''/pieces''))
              \<or> (k' = 2 * j + 2 \<and> (a = Write_vtu (piece_filename (get_step_path rp (Suc i + j) @ ''/pieces/piece'') r) m cd
                     \<or> r = 0 \<and> (a = Write_pvtu (get_pvtu_path (get_step_path rp (Suc i + j))) m cd ''pieces/piece''
                                 \<or> (\<exists>p' k' t'. a = Update_pvd s rp p' k' t')))))"
      using Cons.IH [OF nb(3)] by blast
    show ?thesis
    proof (cases "k' = 0 \<and> a \<in> set ?P")
      case True
      then show ?thesis using 3 by (rule_tac disjI2, rule_tac x = 0 in exI) (auto simp: write_tail_def split: if_splits)
    next
      case False
      then obtain j where j: "j < length ts"
        and d: "(k' = 2 * j \<and> r = 0 \<and> a = Mkdir (get_step_path rp (i + Suc j)))
              \<or> (k' = 2 * j + 1 \<and> r = 0 \<and> a = Mkdir (get_step_path rp (i + Suc j) @ ''/pieces''))
              \<or> (k' = 2 * j + 2 \<and> (a = Write_vtu (piece_filename (get_step_path rp (i + Suc j) @ ''/pieces/piece'') r) m cd
                     \<or> r = 0 \<and> (a = Write_pvtu (get_pvtu_path (get_step_path rp (i + Suc j))) m cd ''pieces/piece''
                                 \<or> (\<exists>p' k' t'. a = Update_pvd s rp p' k' t'))))"
        using ih by auto
      show ?thesis
        using d j 3 by (rule_tac disjI2, rule_tac x = "Suc j" in exI) auto
    qed
  qed
qed

text \<open>What may run beside the piece of rank \<open>r'\<close> of step \<open>j\<close> commutes with it.\<close>

lemma commute_with_piece:
  assumes "b = Write_vtu (piece_filename (get_step_path rp j @ ''/pieces/piece'') r') m' cd"
    and "a = Mkdir (get_step_path rp (Suc j))
         \<or> (a = Write_vtu (piece_filename (get_step_path rp j @ ''/pieces/piece'') r) m cd \<and> r \<noteq> r')
         \<or> a = Write_pvtu (get_pvtu_path (get_step_path rp j)) m cd pp
         \<or> (\<exists>p k t. a = Update_pvd s rp p k t)"
  shows "commute a b"
proof -
  let ?f = "piece_filename (get_step_path rp j @ ''/pieces/piece'') r'"
  have w: "pact_write b = Some (?f, sbind (write_vtu m' cd) (\<lambda>ts. Inr (Items ts)))" using assms(1) by simp
  have d: "dir_of ?f \<noteq> get_step_path rp (Suc j)"
    using dir_of_piece_file [of "get_step_path rp j" r'] step_path_not_pieces [of rp "Suc j" j] by simp
  show ?thesis
    using assms(2)
  proof (elim disjE conjE exE)
    assume "a = Mkdir (get_step_path rp (Suc j))"
    then show ?thesis using commute_mkdir_write [OF w d] by simp
  next
    assume "a = Write_vtu (piece_filename (get_step_path rp j @ ''/pieces/piece'') r) m cd" and "r \<noteq> r'"
    then show ?thesis using w step_files_apart(3) by (auto intro!: commute_writes)
  next
    assume "a = Write_pvtu (get_pvtu_path (get_step_path rp j)) m cd pp"
    then show ?thesis using w step_files_apart(2) by (auto intro!: commute_writes)
  next
    fix p k t assume "a = Update_pvd s rp p k t"
    then show ?thesis using commute_update_write [OF w] step_files_apart(5) by metis
  qed
qed

lemma writer_prog_phases:
  fixes A B C W :: "pact list"
  assumes "Barrier \<notin> set A" and "Barrier \<notin> set B"
  shows "phase 0 (A @ Barrier # B @ Barrier # (C @ W)) = A"
    and "phase 1 (A @ Barrier # B @ Barrier # (C @ W)) = B"
    and "phase (Suc (Suc k)) (A @ Barrier # B @ Barrier # (C @ W)) = phase k (C @ W)"
  using phase_barrier [OF assms(1)] phase_barrier [OF assms(2)] by (simp_all only: One_nat_def)

text \<open>The actions of a rank other than 0 are its pieces, one per step, after the fourth barrier.\<close>

lemma writer_progs_other_rank:
  assumes "r < length ms" and "r \<noteq> 0" and "a \<in> set (phase k (writer_progs s rp cd ms ts ! r))"
  shows "\<exists>j<length ts. k = 2 * j + 4
           \<and> a = Write_vtu (piece_filename (get_step_path rp j @ ''/pieces/piece'') r) (ms ! r) cd"
proof -
  let ?W = "fst (writer_writes_prog s (ms ! r) r (rank_writer rp cd 0 (length pvd_head) r) ts)"
  have p: "writer_progs s rp cd ms ts ! r = [] @ Barrier # [] @ Barrier # ([] @ ?W)"
    using assms(1,2) by (simp add: writer_progs_ranks)
  have a0: "a \<in> set (phase k ([] @ Barrier # [] @ Barrier # ([] @ ?W)))" using assms(3) by (simp only: p)
  obtain k' where k: "k = Suc (Suc k')"
  proof (cases k)
    case 0
    then show ?thesis using a0 writer_prog_phases(1) [where A = "[]" and B = "[]" and C = "[]" and W = ?W] by simp
  next
    case (Suc n)
    then show ?thesis
    proof (cases n)
      case 0
      then show ?thesis using a0 Suc writer_prog_phases(2) [where A = "[]" and B = "[]" and C = "[]" and W = ?W] by simp
    qed (use Suc that in simp)
  qed
  then have a: "a \<in> set (phase k' ([] @ ?W))"
    using a0 writer_prog_phases(3) [where A = "[]" and B = "[]" and C = "[]" and W = ?W and k = k'] by simp
  from writes_phase [OF _ a] assms(2) have "\<exists>j<length ts. k' = 2 * j + 2
      \<and> a = Write_vtu (piece_filename (get_step_path rp j @ ''/pieces/piece'') r) (ms ! r) cd"
    by simp
  then
  obtain j where "j < length ts" "k' = 2 * j + 2"
    "a = Write_vtu (piece_filename (get_step_path rp j @ ''/pieces/piece'') r) (ms ! r) cd"
    by auto
  then show ?thesis using k by auto
qed

lemma writer_progs_rank0:
  assumes "0 < length ms" and "a \<in> set (phase (2 * j + 4) (writer_progs s rp cd ms ts ! 0))"
  shows "a = Mkdir (get_step_path rp (Suc j))
         \<or> a = Write_vtu (piece_filename (get_step_path rp j @ ''/pieces/piece'') 0) (ms ! 0) cd
         \<or> a = Write_pvtu (get_pvtu_path (get_step_path rp j)) (ms ! 0) cd ''pieces/piece''
         \<or> (\<exists>p k t. a = Update_pvd s rp p k t)"
proof -
  let ?W = "fst (writer_writes_prog s (ms ! 0) 0 (rank_writer rp cd 0 (length pvd_head) 0) ts)"
  let ?P = "[Mkdir rp] @ Barrier # [Mkdir (rp @ ''/steps'')] @ Barrier # ([Init_pvd rp] @ ?W)"
  have p: "writer_progs s rp cd ms ts ! 0 = ?P"
    using assms(1) by (simp add: writer_progs_ranks)
  have e: "2 * j + 4 = Suc (Suc (2 * j + 2))" by simp
  have ph: "phase (Suc (Suc (2 * j + 2))) ?P = phase (2 * j + 2) ([Init_pvd rp] @ ?W)"
    by (rule writer_prog_phases(3)) simp_all
  have a: "a \<in> set (phase (2 * j + 2) ([Init_pvd rp] @ ?W))"
    using assms(2) by (simp only: p e ph)
  have nbI: "Barrier \<notin> set [Init_pvd rp]" by simp
  note d = writes_phase [OF nbI a]
  have "\<not> (2 * j + 2 = 0 \<and> a \<in> set [Init_pvd rp])" by simp
  then obtain j' where j': "j' < length ts"
    and c: "(2 * j + 2 = 2 * j' \<and> a = Mkdir (get_step_path rp (0 + j')))
            \<or> (2 * j + 2 = 2 * j' + 1)
            \<or> (2 * j + 2 = 2 * j' + 2 \<and> (a = Write_vtu (piece_filename (get_step_path rp (0 + j') @ ''/pieces/piece'') 0) (ms ! 0) cd
                   \<or> (a = Write_pvtu (get_pvtu_path (get_step_path rp (0 + j'))) (ms ! 0) cd ''pieces/piece''
                                 \<or> (\<exists>p' k' t'. a = Update_pvd s rp p' k' t'))))"
    using d by blast
  show ?thesis
  proof (cases "j' = Suc j")
    case True
    then have "2 * j + 2 = 2 * j'" "2 * j + 2 \<noteq> 2 * j' + 1" "2 * j + 2 \<noteq> 2 * j' + 2" by simp_all
    then show ?thesis using c True by simp
  next
    case False
    then have "2 * j + 2 \<noteq> 2 * j'" "2 * j + 2 \<noteq> 2 * j' + 1" by arith+
    then have "2 * j + 2 = 2 * j' + 2" using c by blast
    then have "j' = j" by simp
    then show ?thesis using c by auto
  qed
qed

lemma writer_progs_length [simp]: "length (writer_progs s rp cd ms ts) = length ms"
  by (simp add: writer_progs_def)

text \<open>A rank's action beside the piece of another rank in the same phase.\<close>

lemma writer_beside_piece:
  assumes "r < length ms" and "r' < length ms" and "r \<noteq> r'" and "r' \<noteq> 0"
    and "a \<in> set (phase k (writer_progs s rp cd ms ts ! r))"
    and "b \<in> set (phase k (writer_progs s rp cd ms ts ! r'))"
  shows "commute a b"
proof -
  obtain j where j: "k = 2 * j + 4"
    and b: "b = Write_vtu (piece_filename (get_step_path rp j @ ''/pieces/piece'') r') (ms ! r') cd"
    using writer_progs_other_rank [OF assms(2,4,6)] by blast
  have "a = Mkdir (get_step_path rp (Suc j))
        \<or> (a = Write_vtu (piece_filename (get_step_path rp j @ ''/pieces/piece'') r) (ms ! r) cd \<and> r \<noteq> r')
        \<or> a = Write_pvtu (get_pvtu_path (get_step_path rp j)) (ms ! r) cd ''pieces/piece''
        \<or> (\<exists>p k t. a = Update_pvd s rp p k t)"
  proof (cases "r = 0")
    case True
    then show ?thesis using writer_progs_rank0 [of ms a j s rp cd ts] assms(1,3,5) j by auto
  next
    case False
    obtain j' where "k = 2 * j' + 4"
      and "a = Write_vtu (piece_filename (get_step_path rp j' @ ''/pieces/piece'') r) (ms ! r) cd"
      using writer_progs_other_rank [OF assms(1) False assms(5)] by blast
    then show ?thesis using j assms(3) by simp
  qed
  then show ?thesis using commute_with_piece [OF b] by blast
qed

text \<open>Between two barriers the ranks of a writer act on different files.\<close>

lemma writer_progs_indep: "indep (writer_progs s rp cd ms ts)"
  unfolding indep_def
proof (intro allI impI ballI)
  fix k r r' a b
  assume r: "r < length (writer_progs s rp cd ms ts)" and r': "r' < length (writer_progs s rp cd ms ts)"
    and ne: "r \<noteq> r'" and a: "a \<in> set (phase k (writer_progs s rp cd ms ts ! r))"
    and b: "b \<in> set (phase k (writer_progs s rp cd ms ts ! r'))"
  show "commute a b"
  proof (cases "r' = 0")
    case False
    then show ?thesis using writer_beside_piece [OF _ _ ne False a b] r r' by simp
  next
    case True
    then have "commute b a" using writer_beside_piece [OF _ _ ne [symmetric] _ b a] r r' ne by simp
    then show ?thesis by (simp add: commute_sym)
  qed
qed

section \<open>The reference run of a writer\<close>

lemma write_tail_concat:
  assumes "0 < n"
  shows "concat (map (\<lambda>r. write_tail s rp cd (ms ! r) k pos t r) [0..<n])
         = Write_pvtu (get_pvtu_path (get_step_path rp k)) (ms ! 0) cd ''pieces/piece''
           # Write_vtu (piece_filename (get_step_path rp k @ ''/pieces/piece'') 0) (ms ! 0) cd
           # Update_pvd s rp pos k t
           # map (\<lambda>r. Write_vtu (piece_filename (get_step_path rp k @ ''/pieces/piece'') r) (ms ! r) cd) [1..<n]"
proof -
  have "map (\<lambda>r. write_tail s rp cd (ms ! r) k pos t r) [Suc 0..<n]
        = map (\<lambda>r. [Write_vtu (piece_filename (get_step_path rp k @ ''/pieces/piece'') r) (ms ! r) cd]) [Suc 0..<n]"
    by (rule map_cong) (auto simp: write_tail_def)
  then show ?thesis
    using assms by (simp add: upt_conv_Cons write_tail_def map_concat) (induction n; simp)
qed

text \<open>
  The actions of all ranks after the second barrier of step \<open>k\<close>, in rank
  order: the step's files are written and the collection gains its line.
\<close>

lemma write_tail_run:
  assumes "0 < length ms" and "get_step_path rp k \<in> set (fs_dirs fs)"
    and "get_step_path rp k @ ''/pieces'' \<in> set (fs_dirs fs)"
    and "fs_files fs (get_pvd_path rp) = Some (Text (p @ pvd_tail))"
    and "\<forall>r<length ms. \<exists>vs. write_vtu (ms ! r) cd = Inr vs"
  shows "\<exists>fs'. run_pacts (concat (map (\<lambda>r. write_tail s rp cd (ms ! r) k (length p) t r) [0..<length ms])) fs = Inr fs'
     \<and> fs_dirs fs' = fs_dirs fs
     \<and> fs_files fs' (get_pvd_path rp) = Some (Text (p @ dataset_line s k t @ pvd_tail))
     \<and> step_written rp cd ms k fs'
     \<and> (\<forall>q. q \<noteq> get_pvtu_path (get_step_path rp k)
            \<and> (\<forall>r. q \<noteq> piece_filename (get_step_path rp k @ ''/pieces/piece'') r) \<and> q \<noteq> get_pvd_path rp
            \<longrightarrow> fs_files fs' q = fs_files fs q)"
proof -
  let ?sp = "get_step_path rp k"
  let ?pf = "piece_filename (?sp @ ''/pieces/piece'')" and ?pv = "get_pvtu_path ?sp" and ?pd = "get_pvd_path rp"
  let ?n = "length ms"
  obtain vs0 where w0: "write_vtu (ms ! 0) cd = Inr vs0" using assms(1,5) by blast
  define fs1 where "fs1 = fs\<lparr>fs_files := (fs_files fs)(?pv \<mapsto> Items (write_pvtu (ms ! 0) cd ''pieces/piece''))\<rparr>"
  define fs2 where "fs2 = fs1\<lparr>fs_files := (fs_files fs1)(?pf 0 \<mapsto> Items vs0)\<rparr>"
  define fs3 where "fs3 = fs2\<lparr>fs_files := (fs_files fs2)(?pd \<mapsto> Text (p @ dataset_line s k t @ pvd_tail))\<rparr>"
  have r1: "run_pact (Write_pvtu ?pv (ms ! 0) cd ''pieces/piece'') fs = Inr fs1"
    using assms(2) by (simp add: write_pvtu_file_def write_file_def parent_ok_def dir_of_pvtu fs1_def)
  have r2: "run_pact (Write_vtu (?pf 0) (ms ! 0) cd) fs1 = Inr fs2"
    using assms(3) w0 by (simp add: write_vtu_file_def write_file_def parent_ok_def dir_of_piece_file fs1_def fs2_def)
  have pd2: "fs_files fs2 ?pd = Some (Text (p @ pvd_tail))"
    using assms(4) step_files_apart(4,5) by (simp add: fs1_def fs2_def)
  have r3: "run_pact (Update_pvd s rp (length p) k t) fs2 = Inr fs3"
    using update_pvd_at_tail [OF pd2, of s k t] by (simp add: fs3_def)
  have d3: "fs_dirs fs3 = fs_dirs fs" by (simp add: fs1_def fs2_def fs3_def)
  have "\<forall>r\<in>set [1..<?n]. parent_ok fs3 (?pf r)"
    using assms(3) d3 by (simp add: parent_ok_def dir_of_piece_file)
  then obtain F where F: "run_pacts (map (\<lambda>r. Write_vtu (?pf r) (ms ! r) cd) [1..<?n]) fs3 = Inr F"
    using run_pieces_ok [of "[1..<?n]" ms cd fs3 ?pf] assms(5) by auto
  note rp = run_pieces [OF F distinct_upt piece_filename_inj_fun]
  have out: "q \<notin> ?pf ` set [1..<?n]" if "q = ?pv \<or> q = ?pd \<or> q = ?pf 0" for q
    using that step_files_apart(3) step_files_ne by auto
  have run: "run_pacts (concat (map (\<lambda>r. write_tail s rp cd (ms ! r) k (length p) t r) [0..<?n])) fs = Inr F"
    using r1 r2 r3 F by (simp add: write_tail_concat [OF assms(1)])
  have files: "fs_files F ?pd = Some (Text (p @ dataset_line s k t @ pvd_tail))"
    "fs_files F ?pv = Some (Items (write_pvtu (ms ! 0) cd ''pieces/piece''))"
    "fs_files F (?pf 0) = Some (Items vs0)"
    using rp out [of ?pd] out [of ?pv] out [of "?pf 0"] step_files_ne
    by (simp_all add: fs1_def fs2_def fs3_def)
  have "step_written rp cd ms k F"
    unfolding step_written_def
  proof (intro conjI allI impI)
    fix r assume r: "r < ?n"
    show "\<exists>vs. write_vtu (ms ! r) cd = Inr vs \<and> fs_files F (?pf r) = Some (Items vs)"
    proof (cases "r = 0")
      case True
      then show ?thesis using files(3) w0 by simp
    next
      case False
      then show ?thesis using rp r by auto
    qed
  qed (rule files(2))
  moreover have "fs_files F q = fs_files fs q"
    if "q \<noteq> ?pv" "\<forall>r. q \<noteq> ?pf r" "q \<noteq> ?pd" for q
    using rp that by (simp add: fs1_def fs2_def fs3_def image_iff)
  ultimately show ?thesis using run files(1) rp d3 by auto
qed

lemma concat_rank0: "0 < n \<Longrightarrow> concat (map (\<lambda>r. if r = 0 then xs else []) [0..<n]) = xs"
  by (induction n) auto

text \<open>
  Rank 0's directory of the next step, made after the other ranks' actions in
  the same phase, ends where it ends when made last.
\<close>

lemma run_then_rank0:
  assumes "0 < n" and "\<forall>r\<in>set [1..<n]. \<forall>a\<in>set (X r). commute b a"
    and "run_pacts (concat (map X [0..<n])) fs = Inr fs1" and "run_pact b fs1 = Inr fs2"
  shows "run_pacts (concat (map (\<lambda>r. X r @ (if r = 0 then [b] else [])) [0..<n])) fs = Inr fs2"
proof -
  let ?XS = "concat (map X [1..<n])"
  have e1: "concat (map (\<lambda>r. X r @ (if r = 0 then [b] else [])) [0..<n]) = X 0 @ b # ?XS"
  proof -
    have m: "map (\<lambda>r. X r @ (if r = 0 then [b] else [])) [Suc 0..<n] = map X [Suc 0..<n]"
      by (rule map_cong) auto
    have u: "[0..<n] = 0 # [Suc 0..<n]" using assms(1) by (simp add: upt_conv_Cons)
    show ?thesis unfolding u list.map concat.simps m by simp
  qed
  have e2: "concat (map X [0..<n]) = X 0 @ ?XS" using assms(1) by (simp add: upt_conv_Cons)
  obtain g where g: "run_pacts (X 0) fs = Inr g" and g1: "run_pacts ?XS g = Inr fs1"
    using assms(3) unfolding e2 by (auto simp: run_pacts_append sbind_eq_Inr)
  have "run_pacts (?XS @ [b]) g = Inr fs2"
    using g1 assms(4) by (simp add: run_pacts_append)
  moreover have "\<forall>a\<in>set ?XS. commute b a" using assms(2) by auto
  ultimately have "run_pacts (b # ?XS) g = Inr fs2"
    using run_pacts_move [of ?XS b "[]" g fs2] by simp
  then show ?thesis using g unfolding e1 by (simp add: run_pacts_append)
qed

lemma step_written_frame:
  assumes "step_written rp cd ms k fs"
    and "fs_files F (get_pvtu_path (get_step_path rp k)) = fs_files fs (get_pvtu_path (get_step_path rp k))"
    and "\<forall>r. fs_files F (piece_filename (get_step_path rp k @ ''/pieces/piece'') r)
             = fs_files fs (piece_filename (get_step_path rp k @ ''/pieces/piece'') r)"
  shows "step_written rp cd ms k F"
  using assms by (simp add: step_written_def)

text \<open>
  The reference run of the writes from step \<open>length us\<close> on, after actions
  \<open>X\<close> left over from the phase before: each step's files are written, the
  collection gains one line per time, nothing else changes.
\<close>

lemma writer_writes_seq:
  assumes "0 < length ms" and "\<forall>r. Barrier \<notin> set (X r)"
    and "\<forall>r\<in>set [1..<length ms]. \<forall>a\<in>set (X r). commute (Mkdir (get_step_path rp (length us))) a"
    and "run_pacts (concat (map X [0..<length ms])) fs = Inr fs1"
    and "rp @ ''/steps'' \<in> set (fs_dirs fs1)"
    and "fs_files fs1 (get_pvd_path rp) = Some (Text (pvd_head @ pvd_entries s us @ pvd_tail))"
    and "\<forall>r<length ms. \<exists>vs. write_vtu (ms ! r) cd = Inr vs"
  shows "\<exists>F. spmd_seq (map (\<lambda>r. X r @ fst (writer_writes_prog s (ms ! r) r
                   (rank_writer rp cd (length us) (length (pvd_head @ pvd_entries s us)) r) ts)) [0..<length ms]) fs = Inr F
     \<and> fs_files F (get_pvd_path rp) = Some (Text (pvd_head @ pvd_entries s (us @ ts) @ pvd_tail))
     \<and> (\<forall>j<length ts. step_written rp cd ms (length us + j) F)
     \<and> (\<forall>q. (\<forall>k\<ge>length us. q \<noteq> get_pvtu_path (get_step_path rp k)
                 \<and> (\<forall>r. q \<noteq> piece_filename (get_step_path rp k @ ''/pieces/piece'') r))
            \<and> q \<noteq> get_pvd_path rp \<longrightarrow> fs_files F q = fs_files fs1 q)
     \<and> set (fs_dirs fs1) \<subseteq> set (fs_dirs F)"
  using assms(2-6)
proof (induction ts arbitrary: us X fs fs1)
  case Nil
  have "spmd_seq (map (\<lambda>r. X r @ []) [0..<length ms]) fs = Inr fs1"
    using spmd_seq_last [of "[0..<length ms]" X fs] Nil.prems(1,3) by simp
  then show ?case using Nil.prems(5) by simp
next
  case (Cons t ts)
  let ?n = "length ms" and ?k = "length us" and ?pos = "length (pvd_head @ pvd_entries s us)"
  let ?sp = "get_step_path rp ?k"
  let ?M0 = "\<lambda>r. if r = 0 then [Mkdir ?sp] else []"
  let ?M1 = "\<lambda>r. if r = 0 then [Mkdir (?sp @ ''/pieces'')] else []"
  let ?P = "\<lambda>r. write_tail s rp cd (ms ! r) ?k ?pos t r"
  let ?R = "\<lambda>r. fst (writer_writes_prog s (ms ! r) r
                    (rank_writer rp cd (Suc ?k) (?pos + length (dataset_line s ?k t)) r) ts)"
  have prog: "map (\<lambda>r. X r @ fst (writer_writes_prog s (ms ! r) r (rank_writer rp cd ?k ?pos r) (t # ts))) [0..<?n]
              = map (\<lambda>r. (X r @ ?M0 r) @ Barrier # (?M1 r @ Barrier # (?P r @ ?R r))) [0..<?n]"
    by (simp del: writer_writes_prog.simps add: writer_writes_prog_Cons)
  have nb0: "\<forall>r\<in>set [0..<?n]. Barrier \<notin> set (X r @ ?M0 r)" using Cons.prems(1) by simp
  have nb1: "\<forall>r\<in>set [0..<?n]. Barrier \<notin> set (?M1 r)" by simp
  have ne: "[0..<?n] \<noteq> []" using assms(1) by simp
  have "parent_ok fs1 ?sp" using Cons.prems(4) by (simp add: parent_ok_def dir_of_step_path)
  then obtain fsA where A: "safe_mkdir ?sp fs1 = Inr fsA" using safe_mkdir_ok by blast
  have runA: "run_pacts (concat (map (\<lambda>r. X r @ ?M0 r) [0..<?n])) fs = Inr fsA"
    using run_then_rank0 [OF assms(1) Cons.prems(2,3)] A by simp
  have dA: "set (fs_dirs fsA) = insert ?sp (set (fs_dirs fs1))" and fA: "fs_files fsA = fs_files fs1"
    using safe_mkdir_Inr [OF A] by simp_all
  have "parent_ok fsA (?sp @ ''/pieces'')" using dA by (simp add: parent_ok_def dir_of_pieces)
  then obtain fsB where B: "safe_mkdir (?sp @ ''/pieces'') fsA = Inr fsB" using safe_mkdir_ok by blast
  have runB: "run_pacts (concat (map ?M1 [0..<?n])) fsA = Inr fsB"
    using B assms(1) by (simp add: concat_rank0)
  have dB: "set (fs_dirs fsB) = insert (?sp @ ''/pieces'') (insert ?sp (set (fs_dirs fs1)))"
    and fB: "fs_files fsB = fs_files fs1"
    using safe_mkdir_Inr [OF B] dA fA by simp_all
  obtain fsC where C: "run_pacts (concat (map ?P [0..<?n])) fsB = Inr fsC"
    and dC: "fs_dirs fsC = fs_dirs fsB"
    and pC: "fs_files fsC (get_pvd_path rp) = Some (Text ((pvd_head @ pvd_entries s us) @ dataset_line s ?k t @ pvd_tail))"
    and wC: "step_written rp cd ms ?k fsC"
    and oC: "\<forall>q. q \<noteq> get_pvtu_path ?sp \<and> (\<forall>r. q \<noteq> piece_filename (?sp @ ''/pieces/piece'') r)
                  \<and> q \<noteq> get_pvd_path rp \<longrightarrow> fs_files fsC q = fs_files fsB q"
    using write_tail_run [OF assms(1), of rp ?k fsB "pvd_head @ pvd_entries s us" cd s t] dB fB
      Cons.prems(5) assms(7) by auto
  have nbP: "\<forall>r. Barrier \<notin> set (?P r)" using write_tail_no_barrier by simp
  have cmP: "\<forall>r\<in>set [1..<?n]. \<forall>a\<in>set (?P r). commute (Mkdir (get_step_path rp (length (us @ [t])))) a"
    using commute_with_piece by (auto simp: write_tail_def)
  have st: "rp @ ''/steps'' \<in> set (fs_dirs fsC)" using dC dB Cons.prems(4) by simp
  have pv: "fs_files fsC (get_pvd_path rp) = Some (Text (pvd_head @ pvd_entries s (us @ [t]) @ pvd_tail))"
    using pC by (simp add: pvd_entries_snoc)
  have w: "rank_writer rp cd (length (us @ [t])) (length (pvd_head @ pvd_entries s (us @ [t]))) r
           = rank_writer rp cd (Suc ?k) (?pos + length (dataset_line s ?k t)) r" for r
    by (simp add: pvd_entries_snoc add.assoc)
  obtain F where F: "spmd_seq (map (\<lambda>r. ?P r @ ?R r) [0..<?n]) fsB = Inr F"
    and pF: "fs_files F (get_pvd_path rp) = Some (Text (pvd_head @ pvd_entries s ((us @ [t]) @ ts) @ pvd_tail))"
    and wF: "\<forall>j<length ts. step_written rp cd ms (length (us @ [t]) + j) F"
    and oF: "\<forall>q. (\<forall>k\<ge>length (us @ [t]). q \<noteq> get_pvtu_path (get_step_path rp k)
                 \<and> (\<forall>r. q \<noteq> piece_filename (get_step_path rp k @ ''/pieces/piece'') r))
            \<and> q \<noteq> get_pvd_path rp \<longrightarrow> fs_files F q = fs_files fsC q"
    and dF: "set (fs_dirs fsC) \<subseteq> set (fs_dirs F)"
    using Cons.IH [OF nbP cmP C st pv] unfolding w by blast
  have run: "spmd_seq (map (\<lambda>r. X r @ fst (writer_writes_prog s (ms ! r) r (rank_writer rp cd ?k ?pos r) (t # ts))) [0..<?n]) fs
             = Inr F"
    unfolding prog spmd_seq_phase [OF ne nb0] spmd_seq_phase [OF ne nb1] using runA runB F by simp
  have keepk: "fs_files F q = fs_files fsC q"
    if "q = get_pvtu_path ?sp \<or> (\<exists>r. q = piece_filename (?sp @ ''/pieces/piece'') r)" for q
    using oF that step_files_apart(1,2,3) step_files_ne by (auto simp: step_files_apart(1,3))
  have "step_written rp cd ms ?k F"
    using step_written_frame [OF wC] keepk by auto
  then have wAll: "\<forall>j<length (t # ts). step_written rp cd ms (?k + j) F"
    using wF by (auto simp: less_Suc_eq_0_disj)
  have oAll: "fs_files F q = fs_files fs1 q"
    if "\<forall>k\<ge>?k. q \<noteq> get_pvtu_path (get_step_path rp k)
              \<and> (\<forall>r. q \<noteq> piece_filename (get_step_path rp k @ ''/pieces/piece'') r)"
      and "q \<noteq> get_pvd_path rp" for q
    using oF oC fB that by simp
  show ?case
    using run pF wAll oAll dF dC dB by auto
qed

lemma dir_of_steps: "dir_of (p @ ''/steps'') = p"
  using dir_of_append [of "''steps''" p] by (simp add: slash_def)

lemma dir_of_pvd: "dir_of (get_pvd_path p) = p"
  using dir_of_append [of "''steps.pvd''" p] by (simp add: get_pvd_path_def slash_def)

text \<open>
  The reference run of the writer's ranks: the constructor's directories and
  collection, then every step; the collection lists every time and every step's
  files are written.
\<close>

lemma writer_progs_seq:
  assumes "ms \<noteq> []" and "parent_ok fs rp" and "\<forall>r<length ms. \<exists>vs. write_vtu (ms ! r) cd = Inr vs"
  shows "\<exists>F. spmd_seq (writer_progs s rp cd ms ts) fs = Inr F
           \<and> fs_files F (get_pvd_path rp) = Some (Text (pvd_head @ pvd_entries s ts @ pvd_tail))
           \<and> (\<forall>k<length ts. step_written rp cd ms k F)"
proof -
  let ?n = "length ms"
  let ?I0 = "\<lambda>r. if r = 0 then [Mkdir rp] else []"
  let ?I1 = "\<lambda>r. if r = 0 then [Mkdir (rp @ ''/steps'')] else []"
  let ?I2 = "\<lambda>r. if r = 0 then [Init_pvd rp] else []"
  let ?W = "\<lambda>r. fst (writer_writes_prog s (ms ! r) r (rank_writer rp cd 0 (length pvd_head) r) ts)"
  have n: "0 < ?n" and ne: "[0..<?n] \<noteq> []" using assms(1) by simp_all
  obtain fsA where A: "safe_mkdir rp fs = Inr fsA" using safe_mkdir_ok [OF assms(2)] by blast
  have dA: "rp \<in> set (fs_dirs fsA)" using safe_mkdir_Inr [OF A] by simp
  have "parent_ok fsA (rp @ ''/steps'')" using dA by (simp add: parent_ok_def dir_of_steps)
  then obtain fsB where B: "safe_mkdir (rp @ ''/steps'') fsA = Inr fsB" using safe_mkdir_ok by blast
  have dB: "rp \<in> set (fs_dirs fsB)" "rp @ ''/steps'' \<in> set (fs_dirs fsB)" using safe_mkdir_Inr [OF B] dA by auto
  define fsC where "fsC = fsB\<lparr>fs_files := (fs_files fsB)(get_pvd_path rp \<mapsto> Text (pvd_head @ pvd_tail))\<rparr>"
  have C: "run_pacts (concat (map ?I2 [0..<?n])) fsB = Inr fsC"
    using dB n by (simp add: concat_rank0 write_initial_pvd_def write_file_def parent_ok_def dir_of_pvd fsC_def)
  have st: "rp @ ''/steps'' \<in> set (fs_dirs fsC)"
    and pv: "fs_files fsC (get_pvd_path rp) = Some (Text (pvd_head @ pvd_entries s [] @ pvd_tail))"
    using dB by (simp_all add: fsC_def pvd_entries_def)
  have nb: "\<forall>r. Barrier \<notin> set (?I2 r)" by simp
  have cm: "\<forall>r\<in>set [1..<?n]. \<forall>a\<in>set (?I2 r). commute (Mkdir (get_step_path rp (length ([] :: real list)))) a"
    by simp
  obtain F where F: "spmd_seq (map (\<lambda>r. ?I2 r @ fst (writer_writes_prog s (ms ! r) r
                   (rank_writer rp cd (length ([] :: real list)) (length (pvd_head @ pvd_entries s [])) r) ts)) [0..<?n]) fsB = Inr F"
    and pF: "fs_files F (get_pvd_path rp) = Some (Text (pvd_head @ pvd_entries s ([] @ ts) @ pvd_tail))"
    and wF: "\<forall>j<length ts. step_written rp cd ms (length ([] :: real list) + j) F"
    using writer_writes_seq [OF n nb cm C st pv assms(3)] by blast
  have F': "spmd_seq (map (\<lambda>r. ?I2 r @ ?W r) [0..<?n]) fsB = Inr F"
    using F by (simp add: pvd_entries_def)
  have nb0: "\<forall>r\<in>set [0..<?n]. Barrier \<notin> set (?I0 r)" and nb1: "\<forall>r\<in>set [0..<?n]. Barrier \<notin> set (?I1 r)"
    by simp_all
  have "spmd_seq (writer_progs s rp cd ms ts) fs = Inr F"
    unfolding writer_progs_ranks spmd_seq_phase [OF ne nb0] spmd_seq_phase [OF ne nb1]
    using A B F' n by (simp add: concat_rank0)
  then show ?thesis using pF wF by simp
qed

section \<open>One rank\<close>











section \<open>Properties of a \<open>Writer\<close> on several ranks\<close>

text \<open>
  C33: whatever the order in which the ranks of a \<open>Writer\<close> run their
  constructor and their calls \<open>write(t)\<close> between barriers, no action fails
  when the root can be made and every rank's part can be written; every state can
  still run to the end, where the collection lists every time written, in order,
  and a state in which every rank has finished is that end.
\<close>

theorem writer_any_schedule:
  assumes "spmd_step\<^sup>*\<^sup>* (writer_progs s rp cd ms ts, fs) (ps, fs')"
    and "ms \<noteq> []" and "parent_ok fs rp" and "\<forall>r<length ms. \<exists>vs. write_vtu (ms ! r) cd = Inr vs"
  shows "(\<forall>e. \<not> spmd_abort (ps, fs') e)
         \<and> (\<exists>F. spmd_step\<^sup>*\<^sup>* (ps, fs') (replicate (length ms) [], F)
                \<and> fs_files F (get_pvd_path rp) = Some (Text (pvd_head @ pvd_entries s ts @ pvd_tail))
                \<and> (list_all (\<lambda>p. p = []) ps \<longrightarrow> fs' = F))"
proof -
  obtain F where F: "spmd_seq (writer_progs s rp cd ms ts) fs = Inr F"
    and pF: "fs_files F (get_pvd_path rp) = Some (Text (pvd_head @ pvd_entries s ts @ pvd_tail))"
    using writer_progs_seq [OF assms(2-4)] by blast
  have r: "indep ps" "spmd_seq ps fs' = Inr F"
    using spmd_reach_seq [OF assms(1)] writer_progs_indep F by simp_all
  have "length ps = length ms" using spmd_reach_length [OF assms(1)] by simp
  then show ?thesis using spmd_seq_no_abort [OF r] spmd_completes [OF r] spmd_seq_done r(2) pF by auto
qed

text \<open>
  C34: after any finished run of a \<open>Writer\<close> on \<open>n\<close> ranks, reading the
  collection gives back the times written and the index of each step, and
  \<open>read_parallel\<close> of each step's index on \<open>n\<close> ranks gives every rank
  the mesh of its own part.
\<close>

theorem writer_ranks_roundtrip:
  assumes "spmd_step\<^sup>*\<^sup>* (writer_progs s rp cd ms ts, fs) (ps, fs')" and "list_all (\<lambda>p. p = []) ps"
    and "ms \<noteq> []" and "parent_ok fs rp" and "\<forall>m\<in>set ms. vmesh_ok m cd \<and> vm_comm_size m = length ms"
    and "\<forall>t\<in>set ts. stod (s t) = t \<and> dqc \<notin> set (s t) \<and> nlc \<notin> set (s t)"
  shows "read_pvd_file stod (get_pvd_path rp) fs' = Inr (ts, map (\<lambda>k. get_pvtu_path (get_step_path rp k)) [0..<length ts])
         \<and> (\<forall>k<length ts. \<forall>rank<length ms.
               read_parallel rank (length ms) (get_pvtu_path (get_step_path rp k)) fs'
                 = Inr (Some (vtu_of_mesh (ms ! rank) cd)))"
proof -
  have wr: "\<forall>r<length ms. \<exists>vs. write_vtu (ms ! r) cd = Inr vs" using assms(5) vmesh_ok_write_vtu by simp
  obtain F where F: "spmd_seq (writer_progs s rp cd ms ts) fs = Inr F"
    and pF: "fs_files F (get_pvd_path rp) = Some (Text (pvd_head @ pvd_entries s ts @ pvd_tail))"
    and wF: "\<forall>k<length ts. step_written rp cd ms k F"
    using writer_progs_seq [OF assms(3,4) wr] by blast
  have "fs' = F"
    using spmd_reach_seq [OF assms(1)] writer_progs_indep F spmd_seq_done [OF assms(2)] by simp
  moreover have "rp @ ''/'' @ get_pvtu_path (get_rel_step_path k) = get_pvtu_path (get_step_path rp k)" for k
    by (simp add: get_pvtu_path_def get_step_path_def slash_def)
  moreover have "read_parallel rank (length ms) (get_pvtu_path (get_step_path rp k)) F
                   = Inr (Some (vtu_of_mesh (ms ! rank) cd))" if "k < length ts" "rank < length ms" for k rank
    using read_parallel_files [OF assms(3,5), of F "get_step_path rp k"] wF that
    by (simp add: step_written_def check_def)
  ultimately show ?thesis using read_pvd_collection [OF pF assms(6)] by (simp add: dir_of_pvd)
qed


theorem writer_any_schedule_witness:
  "(\<forall>e. \<not> spmd_abort (writer_progs (\<lambda>r. to_string \<lfloor>r\<rfloor>) ''out'' 2 [square_part 0, square_part 1] [0, 1],
                         \<lparr>fs_dirs = [], fs_files = \<lambda>_. None\<rparr>) e)
   \<and> (\<exists>F. spmd_step\<^sup>*\<^sup>* (writer_progs (\<lambda>r. to_string \<lfloor>r\<rfloor>) ''out'' 2 [square_part 0, square_part 1] [0, 1],
                         \<lparr>fs_dirs = [], fs_files = \<lambda>_. None\<rparr>) ([[], []], F)
          \<and> fs_files F ''out/steps.pvd'' = Some (Text (pvd_head @ pvd_entries (\<lambda>r. to_string \<lfloor>r\<rfloor>) [0, 1] @ pvd_tail)))"
proof -
  have ne: "[square_part 0, square_part 1] \<noteq> []" by simp
  have rep: "replicate (length [square_part 0, square_part 1]) [] = [[], [] :: pact list]"
    by (simp add: numeral_2_eq_2)
  have pd: "get_pvd_path ''out'' = ''out/steps.pvd''" by (simp add: get_pvd_path_def)
  show ?thesis
    using writer_any_schedule [OF rtranclp.rtrancl_refl ne empty_parent_ok square_writable,
        of "\<lambda>r. to_string \<lfloor>r\<rfloor>" "[0, 1]"]
    unfolding rep pd by blast
qed

theorem writer_ranks_roundtrip_witness:
  "\<exists>fs'. spmd_step\<^sup>*\<^sup>* (writer_progs (\<lambda>r. to_string \<lfloor>r\<rfloor>) ''out'' 2 [square_part 0, square_part 1] [0, 1],
                         \<lparr>fs_dirs = [], fs_files = \<lambda>_. None\<rparr>) ([[], []], fs')
     \<and> read_pvd_file (\<lambda>x. case stoi x of Inr i \<Rightarrow> real_of_int i | Inl _ \<Rightarrow> 0) (get_pvd_path ''out'') fs'
         = Inr ([0, 1], map (\<lambda>k. get_pvtu_path (get_step_path ''out'' k)) [0..<2])
     \<and> (\<exists>r. read_parallel 1 2 (get_pvtu_path (get_step_path ''out'' 1)) fs' = Inr (Some r)
            \<and> rv_globals r = AI64 [1, 3, 2])"
proof -
  let ?s = "\<lambda>r::real. to_string \<lfloor>r\<rfloor>" and ?ms = "[square_part 0, square_part 1]"
  let ?stod = "\<lambda>x. case stoi x of Inr i \<Rightarrow> real_of_int i | Inl _ \<Rightarrow> 0"
  let ?fs0 = "\<lparr>fs_dirs = [], fs_files = \<lambda>_. None\<rparr> :: vfs"
  have ne: "?ms \<noteq> []" by simp
  obtain F where F: "spmd_seq (writer_progs ?s ''out'' 2 ?ms [0, 1]) ?fs0 = Inr F"
    using writer_progs_seq [OF ne empty_parent_ok square_writable, of ?s "[0, 1]"] by auto
  have rep: "replicate (length ?ms) [] = [[], [] :: pact list]" by (simp add: numeral_2_eq_2)
  have r: "spmd_step\<^sup>*\<^sup>* (writer_progs ?s ''out'' 2 ?ms [0, 1], ?fs0) ([[], []], F)"
    using spmd_completes [OF writer_progs_indep F] unfolding rep by simp
  have fin: "list_all (\<lambda>p. p = []) [[], [] :: pact list]" by simp
  have ok: "\<forall>m\<in>set ?ms. vmesh_ok m 2 \<and> vm_comm_size m = length ?ms"
    using square_part_ok [of 0] square_part_ok [of 1] by simp
  have h: "\<forall>t\<in>set [0, 1::real]. ?stod (?s t) = t \<and> dqc \<notin> set (?s t) \<and> nlc \<notin> set (?s t)"
    using stoi_to_string [of 0] stoi_to_string [of 1] digits_plain [of _ 0] digits_plain [of _ 1] by auto
  note rt = writer_ranks_roundtrip [OF r fin ne empty_parent_ok ok h]
  have q: "\<forall>k<length [0, 1::real]. \<forall>rank<length ?ms.
             read_parallel rank (length ?ms) (get_pvtu_path (get_step_path ''out'' k)) F
               = Inr (Some (vtu_of_mesh (?ms ! rank) 2))"
    using rt by blast
  have l2: "length ?ms = 2" by simp
  have rp1: "read_parallel 1 (length ?ms) (get_pvtu_path (get_step_path ''out'' 1)) F
               = Inr (Some (vtu_of_mesh (?ms ! 1) 2))"
    using q [rule_format, of 1 1] by simp
  show ?thesis
  proof (intro exI conjI)
    show "spmd_step\<^sup>*\<^sup>* (writer_progs ?s ''out'' 2 ?ms [0, 1], ?fs0) ([[], []], F)" by (rule r)
    show "read_pvd_file ?stod (get_pvd_path ''out'') F
            = Inr ([0, 1], map (\<lambda>k. get_pvtu_path (get_step_path ''out'' k)) [0..<2])"
      using rt by (simp add: upt_rec)
    show "read_parallel 1 2 (get_pvtu_path (get_step_path ''out'' 1)) F = Inr (Some (vtu_of_mesh (square_part 1) 2))"
      using rp1 unfolding l2 by simp
    show "rv_globals (vtu_of_mesh (square_part 1) 2) = AI64 [1, 3, 2]"
      by (simp add: vtu_of_mesh_def square_part_def find_tag_def)
  qed
qed

end
